theory Spec2Isabelle
  imports Main
begin

section \<open>JavaScript strings\<close>

text \<open>
  A JavaScript string is a sequence of UTF-16 code units. A code unit is modelled as an
  integer, its numeric value, so that the bullet character U+2022 is one element of the
  list, as \<open>length\<close> counts it in the source.
\<close>

type_synonym jschar = int
type_synonym jsstring = "int list"

definition js :: "string \<Rightarrow> jsstring" where
  "js s = map of_char s"

text \<open>The characters \<open>trim\<close> removes and \<open>\s\<close> matches: WhiteSpace and LineTerminator.\<close>

definition isWhiteSpace :: "jschar \<Rightarrow> bool" where
  "isWhiteSpace c \<longleftrightarrow>
     c = 9 \<or> c = 10 \<or> c = 11 \<or> c = 12 \<or> c = 13 \<or> c = 32 \<or> c = 160 \<or> c = 5760 \<or>
     (8192 \<le> c \<and> c \<le> 8202) \<or> c = 8232 \<or> c = 8233 \<or> c = 8239 \<or> c = 8287 \<or>
     c = 12288 \<or> c = 65279"

definition trim :: "jsstring \<Rightarrow> jsstring" where
  "trim s = rev (dropWhile isWhiteSpace (rev (dropWhile isWhiteSpace s)))"

text \<open>
  \<open>String.prototype.substring(a, b)\<close>: both arguments are clamped to \<open>[0, length]\<close> and
  swapped when the first is the larger.
\<close>

definition substring :: "jsstring \<Rightarrow> int \<Rightarrow> int \<Rightarrow> jsstring" where
  "substring s a b =
     (let len = int (length s);
          fa = min (max a 0) len;
          fb = min (max b 0) len;
          lo = min fa fb;
          hi = max fa fb
      in take (nat (hi - lo)) (drop (nat lo) s))"

text \<open>
  \<open>String.prototype.lastIndexOf(c, pos)\<close> for a one-character search string: the
  position is clamped to \<open>[0, length - 1]\<close>, the search runs downwards from there
  (the position itself included) and yields \<open>-1\<close> when nothing is found.
\<close>

fun lastIndexFrom :: "jschar \<Rightarrow> jsstring \<Rightarrow> nat \<Rightarrow> int" where
  "lastIndexFrom c s 0 = (if s \<noteq> [] \<and> s ! 0 = c then 0 else - 1)"
| "lastIndexFrom c s (Suc k) =
     (if Suc k < length s \<and> s ! Suc k = c then int (Suc k) else lastIndexFrom c s k)"

definition lastIndexOf :: "jsstring \<Rightarrow> jschar \<Rightarrow> int \<Rightarrow> int" where
  "lastIndexOf s c pos =
     (if s = [] then - 1
      else lastIndexFrom c s (nat (min (max pos 0) (int (length s) - 1))))"

section \<open>The chunker of \<open>src/utils/memoryManager.js\<close>\<close>

text \<open>
  \<open>chunkSize\<close> and \<open>overlap\<close> are integers. The source compares an index with
  \<open>start + chunkSize * 0.5\<close>; on integers \<open>i > start + chunkSize * 0.5\<close> is
  \<open>2 * i > 2 * start + chunkSize\<close>, which is what the model writes.

  \<open>chunkEnd\<close> is the part of the loop body that fixes \<open>end\<close> for the window
  beginning at \<open>start\<close>.
\<close>

definition chunkEnd :: "jsstring \<Rightarrow> int \<Rightarrow> int \<Rightarrow> int" where
  "chunkEnd text chunkSize start =
     (let end0 = start + chunkSize in
      if end0 < int (length text) then
        (let sentenceEnd = lastIndexOf text 46 end0;
             questionEnd = lastIndexOf text 63 end0;
             exclamationEnd = lastIndexOf text 33 end0;
             lastSentenceEnd = max sentenceEnd (max questionEnd exclamationEnd)
         in if 2 * lastSentenceEnd > 2 * start + chunkSize then lastSentenceEnd + 1
            else (let lastSpace = lastIndexOf text 32 end0
                  in if 2 * lastSpace > 2 * start + chunkSize then lastSpace else end0))
      else end0)"

function splitLoop :: "jsstring \<Rightarrow> int \<Rightarrow> int \<Rightarrow> int \<Rightarrow> jsstring list \<Rightarrow> jsstring list" where
  "splitLoop text chunkSize overlap start chunks =
     (if start < int (length text) then
        (let endp = chunkEnd text chunkSize start;
             chunk = trim (substring text start endp);
             chunks' = (if chunk \<noteq> [] then chunks @ [chunk] else chunks);
             start' = max (start + 1) (endp - overlap)
         in if start' \<ge> int (length text) then chunks'
            else splitLoop text chunkSize overlap start' chunks')
      else chunks)"
  by pat_completeness auto
termination
  by (relation "measure (\<lambda>(text, chunkSize, overlap, start, chunks). nat (int (length text) - start))")
     auto

definition splitTextIntoChunks :: "jsstring \<Rightarrow> int \<Rightarrow> int \<Rightarrow> jsstring list" where
  "splitTextIntoChunks text chunkSize overlap =
     (if text = [] \<or> int (length text) \<le> chunkSize then [text]
      else filter (\<lambda>chunk. length chunk > 0) (splitLoop text chunkSize overlap 0 []))"

section \<open>The chunker of the document worker\<close>

definition worker_chunkEnd :: "jsstring \<Rightarrow> int \<Rightarrow> int \<Rightarrow> int" where
  "worker_chunkEnd text chunkSize start =
     (let end0 = start + chunkSize in
      if end0 < int (length text) then
        (let sentenceEnd = lastIndexOf text 46 end0;
             questionEnd = lastIndexOf text 63 end0;
             exclamationEnd = lastIndexOf text 33 end0;
             lastSentenceEnd = max sentenceEnd (max questionEnd exclamationEnd)
         in if 2 * lastSentenceEnd > 2 * start + chunkSize then lastSentenceEnd + 1
            else (let lastSpace = lastIndexOf text 32 end0
                  in if 2 * lastSpace > 2 * start + chunkSize then lastSpace else end0))
      else end0)"

function worker_splitLoop ::
  "jsstring \<Rightarrow> int \<Rightarrow> int \<Rightarrow> int \<Rightarrow> jsstring list \<Rightarrow> jsstring list" where
  "worker_splitLoop text chunkSize overlap start chunks =
     (if start < int (length text) then
        (let endp = worker_chunkEnd text chunkSize start;
             chunk = trim (substring text start endp);
             chunks' = (if chunk \<noteq> [] then chunks @ [chunk] else chunks);
             start' = max (start + 1) (endp - overlap)
         in if start' \<ge> int (length text) then chunks'
            else worker_splitLoop text chunkSize overlap start' chunks')
      else chunks)"
  by pat_completeness auto
termination
  by (relation "measure (\<lambda>(text, chunkSize, overlap, start, chunks). nat (int (length text) - start))")
     auto

definition worker_splitTextIntoChunks :: "jsstring \<Rightarrow> int \<Rightarrow> int \<Rightarrow> jsstring list" where
  "worker_splitTextIntoChunks text chunkSize overlap =
     (if text = [] \<or> int (length text) \<le> chunkSize then [text]
      else filter (\<lambda>chunk. length chunk > 0) (worker_splitLoop text chunkSize overlap 0 []))"

section \<open>The main-thread chunker \<open>splitTextAsyncChunks\<close>\<close>

text \<open>
  \<open>OptimizedDocumentProcessor.splitTextAsyncChunks\<close> has the same loop, without the
  early return for a short text. Its progress callback and the pauses that yield to the
  browser do not influence the returned chunks and are left out.
\<close>

function asyncLoop :: "jsstring \<Rightarrow> int \<Rightarrow> int \<Rightarrow> int \<Rightarrow> jsstring list \<Rightarrow> jsstring list" where
  "asyncLoop text chunkSize overlap start chunks =
     (if start < int (length text) then
        (let end0 = start + chunkSize;
             endp =
               (if end0 < int (length text) then
                  (let sentenceEnd = lastIndexOf text 46 end0;
                       questionEnd = lastIndexOf text 63 end0;
                       exclamationEnd = lastIndexOf text 33 end0;
                       lastSentenceEnd = max sentenceEnd (max questionEnd exclamationEnd)
                   in if 2 * lastSentenceEnd > 2 * start + chunkSize then lastSentenceEnd + 1
                      else (let lastSpace = lastIndexOf text 32 end0
                            in if 2 * lastSpace > 2 * start + chunkSize then lastSpace
                               else end0))
                else end0);
             chunk = trim (substring text start endp);
             chunks' = (if chunk \<noteq> [] then chunks @ [chunk] else chunks);
             start' = max (start + 1) (endp - overlap)
         in if start' \<ge> int (length text) then chunks'
            else asyncLoop text chunkSize overlap start' chunks')
      else chunks)"
  by pat_completeness auto
termination
  by (relation "measure (\<lambda>(text, chunkSize, overlap, start, chunks). nat (int (length text) - start))")
     auto

definition splitTextAsyncChunks :: "jsstring \<Rightarrow> int \<Rightarrow> int \<Rightarrow> jsstring list" where
  "splitTextAsyncChunks text chunkSize overlap =
     filter (\<lambda>chunk. length chunk > 0) (asyncLoop text chunkSize overlap 0 [])"

text \<open>
  The windows the loop visits, as pairs of \<open>start\<close> and \<open>end\<close>: one pair for each
  iteration of the \<open>while\<close> loop entered at \<open>start\<close>.
\<close>

function chunkWindows :: "jsstring \<Rightarrow> int \<Rightarrow> int \<Rightarrow> int \<Rightarrow> (int \<times> int) list" where
  "chunkWindows text chunkSize overlap start =
     (if start < int (length text) then
        (let endp = chunkEnd text chunkSize start;
             start' = max (start + 1) (endp - overlap)
         in if start' \<ge> int (length text) then [(start, endp)]
            else (start, endp) # chunkWindows text chunkSize overlap start')
      else [])"
  by pat_completeness auto
termination
  by (relation "measure (\<lambda>(text, chunkSize, overlap, start). nat (int (length text) - start))")
     auto

definition loopIterations :: "jsstring \<Rightarrow> int \<Rightarrow> int \<Rightarrow> nat" where
  "loopIterations text chunkSize overlap =
     (if text = [] \<or> int (length text) \<le> chunkSize then 0
      else length (chunkWindows text chunkSize overlap 0))"

definition windowChunk :: "jsstring \<Rightarrow> int \<times> int \<Rightarrow> jsstring" where
  "windowChunk text w = trim (substring text (fst w) (snd w))"

section \<open>Vocabulary for the properties of the chunker\<close>

text \<open>The sentence terminators the loop looks for: full stop, question mark, exclamation mark.\<close>

definition isTerminator :: "jschar \<Rightarrow> bool" where
  "isTerminator c \<longleftrightarrow> c = 46 \<or> c = 63 \<or> c = 33"

text \<open>
  \<open>inUpperHalf start chunkSize p\<close>: the position \<open>p\<close> lies after the midpoint of the
  window that begins at \<open>start\<close> and not after its raw cut, that is
  \<open>start + chunkSize / 2 < p \<le> start + chunkSize\<close>.
\<close>

definition inUpperHalf :: "int \<Rightarrow> int \<Rightarrow> int \<Rightarrow> bool" where
  "inUpperHalf start chunkSize p \<longleftrightarrow> 2 * start + chunkSize < 2 * p \<and> p \<le> start + chunkSize"

text \<open>
  \<open>nearestIn P text start chunkSize p\<close>: \<open>p\<close> is the position nearest to the raw cut,
  in the upper half of the window, whose character satisfies \<open>P\<close>.
\<close>

definition nearestIn :: "(jschar \<Rightarrow> bool) \<Rightarrow> jsstring \<Rightarrow> int \<Rightarrow> int \<Rightarrow> int \<Rightarrow> bool" where
  "nearestIn P text start chunkSize p \<longleftrightarrow>
     inUpperHalf start chunkSize p \<and> P (text ! nat p) \<and>
     (\<forall>p' \<in> {p <.. start + chunkSize}. \<not> P (text ! nat p'))"

text \<open>
  The least distance the cursor advances in one iteration, and the rounded-up quotient
  used to bound the number of iterations.
\<close>

definition minStep :: "int \<Rightarrow> int \<Rightarrow> int" where
  "minStep chunkSize overlap = max 1 (chunkSize div 2 + 1 - overlap)"

definition ceilDiv :: "int \<Rightarrow> int \<Rightarrow> int" where
  "ceilDiv a b = (a + b - 1) div b"

text \<open>
  The number of iterations of the \<open>while\<close> loop: none when the early return is taken.
  \<open>splitTextAsyncChunks\<close> has no early return and always enters the loop at \<open>0\<close>.
\<close>

definition asyncIterations :: "jsstring \<Rightarrow> int \<Rightarrow> int \<Rightarrow> nat" where
  "asyncIterations text chunkSize overlap = length (chunkWindows text chunkSize overlap 0)"

text \<open>The text \<open>aaa.aaa.\<dots>\<close> of \<open>k\<close> sentences of four characters.\<close>

definition dotText :: "nat \<Rightarrow> jsstring" where
  "dotText k = map (\<lambda>i. if i mod 4 = 3 then 46 else 97) [0 ..< 4 * k]"

text \<open>
  The number of white-space characters at the front of a string, the place in the text
  where the chunk of a window begins once trimmed, and what it means for a chunk to
  stand in the text at an offset.
\<close>

definition leading :: "jsstring \<Rightarrow> nat" where
  "leading s = length (takeWhile isWhiteSpace s)"

definition chunkOffset :: "jsstring \<Rightarrow> int \<times> int \<Rightarrow> nat" where
  "chunkOffset text w = nat (fst w) + leading (substring text (fst w) (snd w))"

definition occursAt :: "jsstring \<Rightarrow> nat \<Rightarrow> jsstring \<Rightarrow> bool" where
  "occursAt text off c \<longleftrightarrow> take (length c) (drop off text) = c"

text \<open>
  \<open>coveredBy text offs chunks\<close>: the chunks stand in the text at the offsets \<open>offs\<close>,
  the offsets never decrease, and every character of the text that is not white space
  lies inside one of these occurrences.
\<close>

definition coveredBy :: "jsstring \<Rightarrow> nat list \<Rightarrow> jsstring list \<Rightarrow> bool" where
  "coveredBy text offs chunks \<longleftrightarrow>
     sorted offs \<and> list_all2 (occursAt text) offs chunks \<and>
     (\<forall>p \<in> {..< length text}. \<not> isWhiteSpace (text ! p) \<longrightarrow>
        (\<exists>i \<in> {..< length chunks}. offs ! i \<le> p \<and> p < offs ! i + length (chunks ! i)))"

section \<open>Properties of the chunker\<close>

declare splitLoop.simps [simp del] worker_splitLoop.simps [simp del]
  asyncLoop.simps [simp del] chunkWindows.simps [simp del]

subsection \<open>The loop and its windows\<close>

lemma splitLoop_windows:
  "splitLoop text chunkSize overlap start chunks =
     chunks @ filter (\<lambda>c. c \<noteq> []) (map (windowChunk text) (chunkWindows text chunkSize overlap start))"
proof (induction "text" chunkSize overlap start chunks rule: splitLoop.induct)
  case (1 tx chunkSize overlap start chunks)
  show ?case
  proof (cases "start < int (length tx)")
    case False
    then show ?thesis
      by (simp add: splitLoop.simps [of tx chunkSize overlap start]
          chunkWindows.simps [of tx chunkSize overlap start])
  next
    case True
    let ?start' = "max (start + 1) (chunkEnd tx chunkSize start - overlap)"
    show ?thesis
    proof (cases "?start' \<ge> int (length tx)")
      case stop: True
      with True show ?thesis
        unfolding splitLoop.simps [of tx chunkSize overlap start]
          chunkWindows.simps [of tx chunkSize overlap start]
        by (simp add: Let_def windowChunk_def)
    next
      case go: False
      show ?thesis
        unfolding splitLoop.simps [of tx chunkSize overlap start]
          chunkWindows.simps [of tx chunkSize overlap start]
        using True go "1.IH" [OF True refl refl refl refl go]
        by (simp add: Let_def windowChunk_def)
    qed
  qed
qed

lemma splitTextIntoChunks_loop:
  assumes "text \<noteq> []" "chunkSize < int (length text)"
  shows "splitTextIntoChunks text chunkSize overlap =
         filter (\<lambda>c. c \<noteq> []) (map (windowChunk text) (chunkWindows text chunkSize overlap 0))"
  using assms by (simp add: splitTextIntoChunks_def splitLoop_windows)

lemma worker_chunkEnd_eq: "worker_chunkEnd text chunkSize start = chunkEnd text chunkSize start"
  by (simp add: worker_chunkEnd_def chunkEnd_def)

lemma worker_splitLoop_eq:
  "worker_splitLoop text chunkSize overlap start chunks = splitLoop text chunkSize overlap start chunks"
proof (induction "text" chunkSize overlap start chunks rule: splitLoop.induct)
  case (1 tx chunkSize overlap start chunks)
  show ?case
  proof (cases "start < int (length tx)")
    case False
    then show ?thesis
      by (simp add: splitLoop.simps [of tx chunkSize overlap start]
          worker_splitLoop.simps [of tx chunkSize overlap start])
  next
    case True
    show ?thesis
    proof (cases "max (start + 1) (chunkEnd tx chunkSize start - overlap) \<ge> int (length tx)")
      case stop: True
      with True show ?thesis
        unfolding splitLoop.simps [of tx chunkSize overlap start]
          worker_splitLoop.simps [of tx chunkSize overlap start]
        by (simp add: Let_def worker_chunkEnd_eq)
    next
      case go: False
      show ?thesis
        unfolding splitLoop.simps [of tx chunkSize overlap start]
          worker_splitLoop.simps [of tx chunkSize overlap start]
        using True go "1.IH" [OF True refl refl refl refl go]
        by (simp add: Let_def worker_chunkEnd_eq)
    qed
  qed
qed

lemma asyncLoop_unfold:
  "asyncLoop text chunkSize overlap start chunks =
     (if start < int (length text) then
        (let endp = chunkEnd text chunkSize start;
             chunk = trim (substring text start endp);
             chunks' = (if chunk \<noteq> [] then chunks @ [chunk] else chunks);
             start' = max (start + 1) (endp - overlap)
         in if start' \<ge> int (length text) then chunks'
            else asyncLoop text chunkSize overlap start' chunks')
      else chunks)"
  by (subst asyncLoop.simps) (simp add: chunkEnd_def Let_def)

lemma asyncLoop_eq:
  "asyncLoop text chunkSize overlap start chunks = splitLoop text chunkSize overlap start chunks"
proof (induction "text" chunkSize overlap start chunks rule: splitLoop.induct)
  case (1 tx chunkSize overlap start chunks)
  show ?case
  proof (cases "start < int (length tx)")
    case False
    then show ?thesis
      by (simp add: splitLoop.simps [of tx chunkSize overlap start]
          asyncLoop_unfold [of tx chunkSize overlap start])
  next
    case True
    show ?thesis
    proof (cases "max (start + 1) (chunkEnd tx chunkSize start - overlap) \<ge> int (length tx)")
      case stop: True
      with True show ?thesis
        unfolding splitLoop.simps [of tx chunkSize overlap start]
          asyncLoop_unfold [of tx chunkSize overlap start]
        by (simp add: Let_def)
    next
      case go: False
      note IH = "1.IH" [OF True refl refl refl refl go]
      show ?thesis
        unfolding splitLoop.simps [of tx chunkSize overlap start]
          asyncLoop_unfold [of tx chunkSize overlap start]
        using True go by (simp add: Let_def IH)
    qed
  qed
qed

lemma splitTextAsyncChunks_windows:
  "splitTextAsyncChunks text chunkSize overlap =
     filter (\<lambda>c. c \<noteq> []) (map (windowChunk text) (chunkWindows text chunkSize overlap 0))"
  by (simp add: splitTextAsyncChunks_def asyncLoop_eq splitLoop_windows)

subsection \<open>The two copies of the chunker\<close>

text \<open>
  C10. The chunker of the document worker and the chunker of \<open>memoryManager.js\<close> return
  the same list of chunks for every text, chunk size and overlap.
\<close>

theorem chunkers_agree:
  "worker_splitTextIntoChunks text chunkSize overlap = splitTextIntoChunks text chunkSize overlap"
  by (simp add: worker_splitTextIntoChunks_def splitTextIntoChunks_def worker_splitLoop_eq)

subsection \<open>The empty text\<close>

text \<open>
  C6. For the empty text \<open>splitTextIntoChunks\<close>, in \<open>memoryManager.js\<close> and in the worker,
  returns the one-element list that holds the empty string, whatever the chunk size and
  the overlap. \<open>splitTextAsyncChunks\<close> has no early return: its loop is not entered and it
  returns the empty list.
\<close>

theorem empty_text_chunks:
  "splitTextIntoChunks [] chunkSize overlap = [[]] \<and>
   worker_splitTextIntoChunks [] chunkSize overlap = [[]] \<and>
   splitTextAsyncChunks [] chunkSize overlap = []"
  by (simp add: worker_splitTextIntoChunks_def splitTextIntoChunks_def
      splitTextAsyncChunks_def asyncLoop.simps)

text \<open>The main-thread chunker does not return the list that holds the empty string.\<close>

theorem async_empty_text_counterexample:
  "splitTextAsyncChunks (js []) 700 200 \<noteq> [js []]"
  by (simp add: splitTextAsyncChunks_def asyncLoop.simps js_def)

subsection \<open>Where a window ends\<close>

lemma lastIndexFrom_cases:
  "(lastIndexFrom c s k = - 1 \<and> (\<forall>i\<le>k. i < length s \<longrightarrow> s ! i \<noteq> c)) \<or>
   (\<exists>r\<le>k. lastIndexFrom c s k = int r \<and> r < length s \<and> s ! r = c \<and>
      (\<forall>i. r < i \<and> i \<le> k \<and> i < length s \<longrightarrow> s ! i \<noteq> c))"
proof (induction k)
  case 0
  then show ?case by auto
next
  case (Suc k)
  show ?case
  proof (cases "Suc k < length s \<and> s ! Suc k = c")
    case True
    then show ?thesis by auto
  next
    case False
    from Suc show ?thesis
    proof
      assume a: "lastIndexFrom c s k = - 1 \<and> (\<forall>i\<le>k. i < length s \<longrightarrow> s ! i \<noteq> c)"
      have "\<forall>i\<le>Suc k. i < length s \<longrightarrow> s ! i \<noteq> c"
        using a False by (auto simp: le_Suc_eq)
      with a False show ?thesis by auto
    next
      assume "\<exists>r\<le>k. lastIndexFrom c s k = int r \<and> r < length s \<and> s ! r = c \<and>
        (\<forall>i. r < i \<and> i \<le> k \<and> i < length s \<longrightarrow> s ! i \<noteq> c)"
      then obtain r where r: "r \<le> k" "lastIndexFrom c s k = int r" "r < length s" "s ! r = c"
        "\<forall>i. r < i \<and> i \<le> k \<and> i < length s \<longrightarrow> s ! i \<noteq> c" by blast
      have "\<forall>i. r < i \<and> i \<le> Suc k \<and> i < length s \<longrightarrow> s ! i \<noteq> c"
        using r(5) False by (auto simp: le_Suc_eq)
      with r False show ?thesis by (intro disjI2 exI [of _ r]) auto
    qed
  qed
qed

lemma lastIndexOf_props:
  assumes "0 \<le> pos" "pos < int (length s)"
  shows "- 1 \<le> lastIndexOf s c pos" and "lastIndexOf s c pos \<le> pos"
    and "0 \<le> lastIndexOf s c pos \<Longrightarrow> s ! nat (lastIndexOf s c pos) = c"
    and "\<And>i. lastIndexOf s c pos < i \<Longrightarrow> i \<le> pos \<Longrightarrow> s ! nat i \<noteq> c"
proof -
  from assms have ne: "s \<noteq> []" by auto
  from assms have k: "nat (min (max pos 0) (int (length s) - 1)) = nat pos" by simp
  have L: "lastIndexOf s c pos = lastIndexFrom c s (nat pos)"
    using ne k by (simp add: lastIndexOf_def)
  note C = lastIndexFrom_cases [of c s "nat pos"]
  show "- 1 \<le> lastIndexOf s c pos" using C L by auto
  show "lastIndexOf s c pos \<le> pos" using C L assms by auto
  show "0 \<le> lastIndexOf s c pos \<Longrightarrow> s ! nat (lastIndexOf s c pos) = c"
    using C L by auto
  show "\<And>i. lastIndexOf s c pos < i \<Longrightarrow> i \<le> pos \<Longrightarrow> s ! nat i \<noteq> c"
  proof -
    fix i assume i: "lastIndexOf s c pos < i" "i \<le> pos"
    from C show "s ! nat i \<noteq> c"
    proof
      assume a: "lastIndexFrom c s (nat pos) = - 1 \<and> (\<forall>i\<le>nat pos. i < length s \<longrightarrow> s ! i \<noteq> c)"
      with i L have "0 \<le> i" by simp
      with i assms have "nat i \<le> nat pos" "nat i < length s" by auto
      with a show ?thesis by blast
    next
      assume "\<exists>r\<le>nat pos. lastIndexFrom c s (nat pos) = int r \<and> r < length s \<and> s ! r = c \<and>
        (\<forall>i. r < i \<and> i \<le> nat pos \<and> i < length s \<longrightarrow> s ! i \<noteq> c)"
      then obtain r where r: "lastIndexFrom c s (nat pos) = int r"
        "\<forall>i. r < i \<and> i \<le> nat pos \<and> i < length s \<longrightarrow> s ! i \<noteq> c" by blast
      with i L assms have "r < nat i" "nat i \<le> nat pos" "nat i < length s" by auto
      with r show ?thesis by blast
    qed
  qed
qed

lemma lastSentenceEnd_props:
  assumes "0 \<le> pos" "pos < int (length s)"
  defines "m \<equiv> max (lastIndexOf s 46 pos) (max (lastIndexOf s 63 pos) (lastIndexOf s 33 pos))"
  shows "m \<le> pos"
    and "0 \<le> m \<Longrightarrow> isTerminator (s ! nat m)"
    and "\<And>i. m < i \<Longrightarrow> i \<le> pos \<Longrightarrow> \<not> isTerminator (s ! nat i)"
proof -
  note P = lastIndexOf_props [OF assms(1,2)]
  show "m \<le> pos" using P(2) [of 46] P(2) [of 63] P(2) [of 33] by (simp add: m_def)
  show "0 \<le> m \<Longrightarrow> isTerminator (s ! nat m)"
    using P(3) [of 46] P(3) [of 63] P(3) [of 33]
    by (auto simp: m_def isTerminator_def max_def split: if_splits)
  show "\<And>i. m < i \<Longrightarrow> i \<le> pos \<Longrightarrow> \<not> isTerminator (s ! nat i)"
    using P(4) [of 46] P(4) [of 63] P(4) [of 33]
    by (auto simp: m_def isTerminator_def)
qed

text \<open>
  C8. For a window that is not the last one (\<open>start + chunkSize < length text\<close>): when a
  sentence terminator stands in the upper half of the window, the window ends one past
  the nearest one; otherwise, when a space stands there, the window ends at the nearest
  space; otherwise it ends at the raw cut \<open>start + chunkSize\<close>. The worker's copy of this
  code is the same function (\<open>worker_chunkEnd_eq\<close>).
\<close>

theorem chunkEnd_boundary:
  assumes "0 \<le> start" "0 < chunkSize" "start + chunkSize < int (length text)"
  shows "if \<exists>p. inUpperHalf start chunkSize p \<and> isTerminator (text ! nat p)
         then \<exists>p. nearestIn isTerminator text start chunkSize p \<and>
                  chunkEnd text chunkSize start = p + 1
         else if \<exists>q. inUpperHalf start chunkSize q \<and> text ! nat q = 32
         then \<exists>q. nearestIn (\<lambda>c. c = 32) text start chunkSize q \<and>
                  chunkEnd text chunkSize start = q
         else chunkEnd text chunkSize start = start + chunkSize"
proof -
  define e where "e = start + chunkSize"
  define m where "m = max (lastIndexOf text 46 e) (max (lastIndexOf text 63 e) (lastIndexOf text 33 e))"
  define q where "q = lastIndexOf text 32 e"
  have e: "0 \<le> e" "e < int (length text)" using assms by (simp_all add: e_def)
  note M = lastSentenceEnd_props [OF e, folded m_def]
  note Q = lastIndexOf_props [OF e, of 32, folded q_def]
  have ce: "chunkEnd text chunkSize start =
      (if 2 * m > 2 * start + chunkSize then m + 1
       else if 2 * q > 2 * start + chunkSize then q else e)"
    using e by (simp add: chunkEnd_def Let_def e_def m_def q_def)
  show ?thesis
  proof (cases "2 * m > 2 * start + chunkSize")
    case True
    with assms have m0: "0 \<le> m" by simp
    have "nearestIn isTerminator text start chunkSize m"
      using True M(1) M(2) [OF m0] M(3) by (auto simp: nearestIn_def inUpperHalf_def e_def)
    moreover have "chunkEnd text chunkSize start = m + 1" using True ce by simp
    moreover have "\<exists>p. inUpperHalf start chunkSize p \<and> isTerminator (text ! nat p)"
      using calculation(1) by (auto simp: nearestIn_def)
    ultimately show ?thesis by auto
  next
    case False
    have noterm: "\<not> (\<exists>p. inUpperHalf start chunkSize p \<and> isTerminator (text ! nat p))"
    proof
      assume "\<exists>p. inUpperHalf start chunkSize p \<and> isTerminator (text ! nat p)"
      then obtain p where p: "2 * start + chunkSize < 2 * p" "p \<le> e" "isTerminator (text ! nat p)"
        by (auto simp: inUpperHalf_def e_def)
      with False have "m < p" by simp
      from M(3) [OF this p(2)] p(3) show False by simp
    qed
    show ?thesis
    proof (cases "2 * q > 2 * start + chunkSize")
      case True
      with assms have q0: "0 \<le> q" by simp
      have "nearestIn (\<lambda>c. c = 32) text start chunkSize q"
        using True Q(2) Q(3) [OF q0] Q(4) by (auto simp: nearestIn_def inUpperHalf_def e_def)
      moreover have "chunkEnd text chunkSize start = q" using True False ce by simp
      moreover have "\<exists>q. inUpperHalf start chunkSize q \<and> text ! nat q = 32"
        using calculation(1) by (auto simp: nearestIn_def)
      ultimately show ?thesis using noterm by auto
    next
      case nq: False
      have nospace: "\<not> (\<exists>p. inUpperHalf start chunkSize p \<and> text ! nat p = 32)"
      proof
        assume "\<exists>p. inUpperHalf start chunkSize p \<and> text ! nat p = 32"
        then obtain p where p: "2 * start + chunkSize < 2 * p" "p \<le> e" "text ! nat p = 32"
          by (auto simp: inUpperHalf_def e_def)
        with nq have "q < p" by simp
        from Q(4) [OF this p(2)] p(3) show False by simp
      qed
      have "chunkEnd text chunkSize start = start + chunkSize"
        using nq False ce by (simp add: e_def)
      with noterm nospace show ?thesis by (simp only: if_False)
    qed
  qed
qed

lemma inUpperHalf_0_8: "inUpperHalf 0 8 p \<longleftrightarrow> p = 5 \<or> p = 6 \<or> p = 7 \<or> p = 8"
  by (auto simp: inUpperHalf_def)

theorem chunkEnd_boundary_witness:
  "(\<exists>p. nearestIn isTerminator (js ''ab cd. efgh ij'') 0 8 p \<and>
        chunkEnd (js ''ab cd. efgh ij'') 8 0 = p + 1) \<and>
   (\<exists>q. nearestIn (\<lambda>c. c = 32) (js ''abcdef ghijkl'') 0 8 q \<and>
        chunkEnd (js ''abcdef ghijkl'') 8 0 = q) \<and>
   chunkEnd (js ''abcdefghijkl'') 8 0 = 0 + 8"
proof -
  have a: "\<exists>p. inUpperHalf 0 8 p \<and> isTerminator (js ''ab cd. efgh ij'' ! nat p)"
    by (rule exI [of _ 5]) (simp add: inUpperHalf_def isTerminator_def js_def)
  have b1: "\<not> (\<exists>p. inUpperHalf 0 8 p \<and> isTerminator (js ''abcdef ghijkl'' ! nat p))"
    by (auto simp: inUpperHalf_0_8 isTerminator_def js_def)
  have b2: "\<exists>q. inUpperHalf 0 8 q \<and> js ''abcdef ghijkl'' ! nat q = 32"
    by (rule exI [of _ 6]) (simp add: inUpperHalf_def js_def)
  have c1: "\<not> (\<exists>p. inUpperHalf 0 8 p \<and> isTerminator (js ''abcdefghijkl'' ! nat p))"
    by (auto simp: inUpperHalf_0_8 isTerminator_def js_def)
  have c2: "\<not> (\<exists>q. inUpperHalf 0 8 q \<and> js ''abcdefghijkl'' ! nat q = 32)"
    by (auto simp: inUpperHalf_0_8 js_def)
  have ha: "0 \<le> (0::int)" "0 < (8::int)" "0 + 8 < int (length (js ''ab cd. efgh ij''))"
    by (simp_all add: js_def)
  have hb: "0 \<le> (0::int)" "0 < (8::int)" "0 + 8 < int (length (js ''abcdef ghijkl''))"
    by (simp_all add: js_def)
  have hc: "0 \<le> (0::int)" "0 < (8::int)" "0 + 8 < int (length (js ''abcdefghijkl''))"
    by (simp_all add: js_def)
  have A: "\<exists>p. nearestIn isTerminator (js ''ab cd. efgh ij'') 0 8 p \<and>
        chunkEnd (js ''ab cd. efgh ij'') 8 0 = p + 1"
    using chunkEnd_boundary [OF ha] a by (simp only: if_True)
  have B: "\<exists>q. nearestIn (\<lambda>c. c = 32) (js ''abcdef ghijkl'') 0 8 q \<and>
        chunkEnd (js ''abcdef ghijkl'') 8 0 = q"
    using chunkEnd_boundary [OF hb] b1 b2 by (simp only: if_True if_False)
  have C: "chunkEnd (js ''abcdefghijkl'') 8 0 = 0 + 8"
    using chunkEnd_boundary [OF hc] c1 c2 by (simp only: if_False)
  from A B C show ?thesis by blast
qed

subsection \<open>Chunks are trimmed and not empty\<close>

lemma trim_Nil: "trim [] = []"
  by (simp add: trim_def)

lemma trim_decomp:
  "dropWhile isWhiteSpace s = trim s @ rev (takeWhile isWhiteSpace (rev (dropWhile isWhiteSpace s)))"
proof -
  let ?d = "dropWhile isWhiteSpace s"
  have "trim s @ rev (takeWhile isWhiteSpace (rev ?d)) =
        rev (takeWhile isWhiteSpace (rev ?d) @ dropWhile isWhiteSpace (rev ?d))"
    by (simp only: rev_append trim_def)
  also have "\<dots> = rev (rev ?d)" by (simp only: takeWhile_dropWhile_id)
  also have "\<dots> = ?d" by simp
  finally show ?thesis by simp
qed

lemma trim_idem: "trim (trim s) = trim s"
proof (cases "trim s = []")
  case True
  then show ?thesis by (simp add: trim_Nil)
next
  case False
  let ?d = "dropWhile isWhiteSpace s"
  have d: "?d \<noteq> []"
  proof
    assume "?d = []"
    then have "trim s = []" unfolding trim_def by (simp del: dropWhile_eq_Nil_conv)
    with False show False by simp
  qed
  then have "\<not> isWhiteSpace (hd ?d)" by (rule hd_dropWhile)
  moreover have "hd ?d = hd (trim s)"
    using trim_decomp [of s] False by (metis hd_append2)
  ultimately have 1: "dropWhile isWhiteSpace (trim s) = trim s"
    using False by (simp add: dropWhile_eq_self_iff)
  have 2: "dropWhile isWhiteSpace (rev (trim s)) = rev (trim s)"
    by (simp add: trim_def)
  show ?thesis
    unfolding trim_def [of "trim s"] 1 2 by simp
qed

text \<open>
  C7. When the text is longer than the chunk size the loop runs, and every chunk it
  returns is non-empty and has no white space at either end. When the text is empty or
  not longer than the chunk size the result is the text itself, as it is: not trimmed,
  and possibly empty or blank.
\<close>

theorem chunks_nonempty_when_split:
  "(text \<noteq> [] \<and> chunkSize < int (length text) \<longrightarrow>
      (\<forall>c \<in> set (splitTextIntoChunks text chunkSize overlap). length (trim c) > 0 \<and> trim c = c) \<and>
      (\<forall>c \<in> set (worker_splitTextIntoChunks text chunkSize overlap). length (trim c) > 0 \<and> trim c = c)) \<and>
   (text = [] \<or> int (length text) \<le> chunkSize \<longrightarrow>
      splitTextIntoChunks text chunkSize overlap = [text] \<and>
      worker_splitTextIntoChunks text chunkSize overlap = [text])"
proof -
  have w: "worker_splitTextIntoChunks text chunkSize overlap = splitTextIntoChunks text chunkSize overlap"
    by (simp add: worker_splitTextIntoChunks_def splitTextIntoChunks_def worker_splitLoop_eq)
  have "\<forall>c \<in> set (splitTextIntoChunks text chunkSize overlap). length (trim c) > 0 \<and> trim c = c"
    if "text \<noteq> []" "chunkSize < int (length text)"
    unfolding splitTextIntoChunks_loop [OF that]
    by (auto simp: windowChunk_def trim_idem)
  moreover have "splitTextIntoChunks text chunkSize overlap = [text]"
    if "text = [] \<or> int (length text) \<le> chunkSize"
    using that by (auto simp: splitTextIntoChunks_def)
  ultimately show ?thesis unfolding w by blast
qed

theorem chunks_nonempty_when_split_witness:
  "js ''ab cd. efgh ij'' \<noteq> [] \<and> 8 < int (length (js ''ab cd. efgh ij'')) \<and>
   splitTextIntoChunks (js ''ab cd. efgh ij'') 8 2 = [js ''ab cd.'', js ''d. efgh'', js ''gh ij''] \<and>
   list_all (\<lambda>c. length (trim c) > 0 \<and> trim c = c)
     (splitTextIntoChunks (js ''ab cd. efgh ij'') 8 2) \<and>
   int (length (js ''ab cd.'')) \<le> 8 \<and>
   splitTextIntoChunks (js ''ab cd.'') 8 2 = [js ''ab cd.'']"
proof -
  have v: "splitTextIntoChunks (js ''ab cd. efgh ij'') 8 2 =
      [js ''ab cd.'', js ''d. efgh'', js ''gh ij'']"
    by code_simp
  have h: "js ''ab cd. efgh ij'' \<noteq> [] \<and> 8 < int (length (js ''ab cd. efgh ij''))"
    by (simp add: js_def)
  have h2: "int (length (js ''ab cd.'')) \<le> 8"
    by (simp add: js_def)
  have "\<forall>c \<in> set (splitTextIntoChunks (js ''ab cd. efgh ij'') 8 2).
      length (trim c) > 0 \<and> trim c = c"
    using chunks_nonempty_when_split [of "js ''ab cd. efgh ij''" 8 2] h by blast
  then have "list_all (\<lambda>c. length (trim c) > 0 \<and> trim c = c)
     (splitTextIntoChunks (js ''ab cd. efgh ij'') 8 2)"
    by (simp only: list_all_iff)
  moreover have "splitTextIntoChunks (js ''ab cd.'') 8 2 = [js ''ab cd.'']"
    using chunks_nonempty_when_split [of "js ''ab cd.''" 8 2] h2 by blast
  ultimately show ?thesis using h h2 v by blast
qed

text \<open>A text of two spaces, shorter than the chunk size, comes back as one blank chunk.\<close>

theorem short_blank_text_counterexample:
  "splitTextIntoChunks (js ''  '') 700 200 = [js ''  ''] \<and> length (trim (js ''  '')) = 0"
  by (simp add: splitTextIntoChunks_def js_def trim_def isWhiteSpace_def)

subsection \<open>Termination and the number of iterations\<close>

lemma chunkEnd_lower:
  assumes "0 < chunkSize"
  shows "start + chunkSize div 2 + 1 \<le> chunkEnd text chunkSize start"
  using assms by (auto simp: chunkEnd_def Let_def)

lemma chunkWindows_length_bound:
  "0 < chunkSize \<Longrightarrow> start < int (length text) \<Longrightarrow>
     int (length (chunkWindows text chunkSize overlap start)) \<le>
       ceilDiv (int (length text) - start) (minStep chunkSize overlap)"
proof (induction "text" chunkSize overlap start rule: chunkWindows.induct)
  case (1 tx chunkSize overlap start)
  note lt = \<open>start < int (length tx)\<close> and cs = \<open>0 < chunkSize\<close>
  let ?s' = "max (start + 1) (chunkEnd tx chunkSize start - overlap)"
  let ?d = "minStep chunkSize overlap"
  let ?n = "int (length tx)"
  have dpos: "0 < ?d" by (simp add: minStep_def)
  have step: "start + ?d \<le> ?s'"
    using chunkEnd_lower [OF cs, of start tx] by (auto simp: minStep_def)
  show ?case
  proof (cases "?s' \<ge> ?n")
    case True
    then have "chunkWindows tx chunkSize overlap start = [(start, chunkEnd tx chunkSize start)]"
      using lt by (simp add: chunkWindows.simps [of tx chunkSize overlap start] Let_def)
    moreover have "1 \<le> (?n - start + ?d - 1) div ?d"
      using lt dpos pos_imp_zdiv_pos_iff [of ?d "?n - start + ?d - 1"] by simp
    ultimately show ?thesis by (simp add: ceilDiv_def)
  next
    case False
    then have w: "chunkWindows tx chunkSize overlap start =
        (start, chunkEnd tx chunkSize start) # chunkWindows tx chunkSize overlap ?s'"
      using lt by (simp add: chunkWindows.simps [of tx chunkSize overlap start] Let_def)
    from False have lt': "?s' < ?n" by linarith
    have "int (length (chunkWindows tx chunkSize overlap ?s')) \<le> ceilDiv (?n - ?s') ?d"
      by (rule "1.IH" [OF lt refl refl False cs lt'])
    also have "\<dots> \<le> (?n - start - 1) div ?d"
      unfolding ceilDiv_def using step dpos by (intro zdiv_mono1) auto
    finally have "int (length (chunkWindows tx chunkSize overlap start)) \<le>
        (?n - start - 1) div ?d + 1"
      using w by simp
    also have "\<dots> = (?n - start - 1 + ?d) div ?d"
      using dpos div_add_self2 [of ?d "?n - start - 1"] by linarith
    finally show ?thesis by (simp add: ceilDiv_def algebra_simps)
  qed
qed

text \<open>
  C3. The loop is a total function (its termination is proved with its definition: the
  cursor advances by at least one each time). For a positive chunk size the number of
  iterations is at most the length of the text divided by the least step
  \<open>max 1 (chunkSize div 2 + 1 - overlap)\<close>, rounded up. A window may end just after its
  midpoint, so the step \<open>chunkSize - overlap\<close> of the raw cut is not a lower bound of the
  advance.
\<close>

theorem loop_iterations_bound:
  assumes "0 < chunkSize"
  shows "int (loopIterations text chunkSize overlap) \<le>
           ceilDiv (int (length text)) (minStep chunkSize overlap) \<and>
         int (asyncIterations text chunkSize overlap) \<le>
           ceilDiv (int (length text)) (minStep chunkSize overlap)"
proof -
  have d: "0 < minStep chunkSize overlap" by (simp add: minStep_def)
  then have nn: "0 \<le> ceilDiv (int (length text)) (minStep chunkSize overlap)"
    unfolding ceilDiv_def by (intro pos_imp_zdiv_nonneg_iff [THEN iffD2]) auto
  have a: "int (asyncIterations text chunkSize overlap) \<le>
      ceilDiv (int (length text)) (minStep chunkSize overlap)"
  proof (cases "text = []")
    case True
    then show ?thesis using nn by (simp add: asyncIterations_def chunkWindows.simps)
  next
    case False
    then have "0 < int (length text)" by simp
    from chunkWindows_length_bound [OF assms this, of overlap]
    show ?thesis by (simp add: asyncIterations_def)
  qed
  have "int (loopIterations text chunkSize overlap) \<le>
      ceilDiv (int (length text)) (minStep chunkSize overlap)"
  proof (cases "text = [] \<or> int (length text) \<le> chunkSize")
    case True
    with nn show ?thesis by (simp add: loopIterations_def)
  next
    case False
    with a show ?thesis by (simp add: loopIterations_def asyncIterations_def)
  qed
  with a show ?thesis by simp
qed

theorem loop_iterations_bound_witness:
  "(0::int) < 5 \<and>
   int (loopIterations (js ''aaa.aaa.aaa.'') 5 0) \<le>
     ceilDiv (int (length (js ''aaa.aaa.aaa.''))) (minStep 5 0) \<and>
   int (asyncIterations (js ''aaa.aaa.aaa.'') 5 0) \<le>
     ceilDiv (int (length (js ''aaa.aaa.aaa.''))) (minStep 5 0)"
  using loop_iterations_bound [of 5 "js ''aaa.aaa.aaa.''" 0] by simp

lemma lastIndexOf_eqI:
  assumes "0 \<le> pos" "pos < int (length s)" "0 \<le> r" "r \<le> pos" "s ! nat r = c"
    and "\<And>i. r < i \<Longrightarrow> i \<le> pos \<Longrightarrow> s ! nat i \<noteq> c"
  shows "lastIndexOf s c pos = r"
proof -
  note P = lastIndexOf_props [OF assms(1,2), of c]
  have "\<not> lastIndexOf s c pos < r"
    using P(4) [of r] assms(4,5) by auto
  moreover have "\<not> r < lastIndexOf s c pos"
  proof
    assume a: "r < lastIndexOf s c pos"
    then have "s ! nat (lastIndexOf s c pos) = c" using P(3) assms(3) by simp
    with assms(6) [OF a P(2)] show False by simp
  qed
  ultimately show ?thesis by simp
qed

lemma lastIndexOf_noneI:
  assumes "0 \<le> pos" "pos < int (length s)"
    and "\<And>i. 0 \<le> i \<Longrightarrow> i \<le> pos \<Longrightarrow> s ! nat i \<noteq> c"
  shows "lastIndexOf s c pos = - 1"
proof -
  note P = lastIndexOf_props [OF assms(1,2), of c]
  have "\<not> 0 \<le> lastIndexOf s c pos"
    using P(3) assms(3) [OF _ P(2)] by auto
  with P(1) show ?thesis by simp
qed

lemma dotText_length: "length (dotText k) = 4 * k"
  by (simp add: dotText_def)

lemma dotText_nth: "i < 4 * k \<Longrightarrow> dotText k ! i = (if i mod 4 = 3 then 46 else 97)"
  by (simp add: dotText_def)

lemma chunkEnd_dotText:
  assumes "j + 2 \<le> k"
  shows "chunkEnd (dotText k) 5 (4 * int j) = 4 * int j + 4"
proof -
  let ?e = "4 * int j + 5"
  have e: "0 \<le> ?e" "?e < int (length (dotText k))"
    using assms by (simp_all add: dotText_length)
  have nth: "dotText k ! nat i = (if nat i mod 4 = 3 then 46 else 97)" if "i \<le> ?e" for i
    using that assms by (intro dotText_nth) auto
  have n3: "nat (4 * int j + 3) = 4 * j + 3" by arith
  have s: "lastIndexOf (dotText k) 46 ?e = 4 * int j + 3"
  proof (rule lastIndexOf_eqI [OF e])
    show "dotText k ! nat (4 * int j + 3) = 46"
      by (subst nth) (simp_all add: n3)
    fix i assume i: "4 * int j + 3 < i" "i \<le> ?e"
    then have "nat i = 4 * j + 4 \<or> nat i = 4 * j + 5" by arith
    then have "nat i mod 4 \<noteq> 3" by (auto simp: mod_simps)
    with nth [OF i(2)] show "dotText k ! nat i \<noteq> 46" by simp
  qed simp_all
  have q: "lastIndexOf (dotText k) 63 ?e = - 1"
    by (rule lastIndexOf_noneI [OF e]) (simp add: nth)
  have x: "lastIndexOf (dotText k) 33 ?e = - 1"
    by (rule lastIndexOf_noneI [OF e]) (simp add: nth)
  show ?thesis
    using e by (simp add: chunkEnd_def Let_def s q x)
qed

lemma chunkWindows_dotText:
  "j < k \<Longrightarrow> length (chunkWindows (dotText k) 5 0 (4 * int j)) = k - j"
proof (induction "k - j" arbitrary: j)
  case 0
  then show ?case by simp
next
  case (Suc n)
  have lt: "4 * int j < int (length (dotText k))"
    using Suc.prems by (simp add: dotText_length)
  show ?case
  proof (cases "j + 2 \<le> k")
    case True
    have ce: "chunkEnd (dotText k) 5 (4 * int j) = 4 * int (j + 1)"
      using chunkEnd_dotText [OF True] by simp
    have go: "\<not> int (length (dotText k)) \<le> 4 * int (j + 1)"
      using True by (simp add: dotText_length)
    have "n = k - (j + 1)" "j + 1 < k" using Suc.hyps(2) True by auto
    from Suc.hyps(1) [OF this]
    have IH: "length (chunkWindows (dotText k) 5 0 (4 * int (j + 1))) = k - (j + 1)" .
    have "chunkWindows (dotText k) 5 0 (4 * int j) =
        (4 * int j, 4 * int (j + 1)) # chunkWindows (dotText k) 5 0 (4 * int (j + 1))"
      using lt go by (subst chunkWindows.simps) (simp add: ce Let_def)
    then show ?thesis using IH True by simp
  next
    case False
    with Suc.prems have k: "k = j + 1" by simp
    have ce: "chunkEnd (dotText k) 5 (4 * int j) = 4 * int j + 5"
      by (simp add: chunkEnd_def dotText_length k)
    have stop: "int (length (dotText k)) \<le> max (4 * int j + 1) (4 * int j + 5 - 0)"
      by (simp add: dotText_length k)
    have "chunkWindows (dotText k) 5 0 (4 * int j) = [(4 * int j, 4 * int j + 5)]"
      using lt stop by (subst chunkWindows.simps) (simp add: ce Let_def)
    then show ?thesis using k by simp
  qed
qed

lemma loopIterations_dotText:
  assumes "2 \<le> k"
  shows "loopIterations (dotText k) 5 0 = k"
proof -
  have "dotText k \<noteq> []" "\<not> int (length (dotText k)) \<le> 5"
    using assms by (auto simp: dotText_def)
  then show ?thesis
    using chunkWindows_dotText [of 0 k] assms by (simp add: loopIterations_def)
qed

text \<open>
  On the text of \<open>k\<close> sentences \<open>aaa.\<close>, with chunk size 5 and overlap 0, every window ends
  after the full stop, four characters on: the loop runs \<open>k\<close> times, against
  \<open>4 * k / 5\<close> rounded up for the raw step. No constant makes up the difference.
\<close>

theorem iteration_bound_counterexample:
  "\<not> (\<exists>C. \<forall>text chunkSize overlap. 0 < chunkSize \<longrightarrow> 0 \<le> overlap \<longrightarrow> overlap < chunkSize \<longrightarrow>
        int (loopIterations text chunkSize overlap) \<le>
          ceilDiv (int (length text)) (chunkSize - overlap) + C)"
proof
  assume "\<exists>C. \<forall>text chunkSize overlap. 0 < chunkSize \<longrightarrow> 0 \<le> overlap \<longrightarrow> overlap < chunkSize \<longrightarrow>
        int (loopIterations text chunkSize overlap) \<le>
          ceilDiv (int (length text)) (chunkSize - overlap) + C"
  then obtain C where C: "\<And>text chunkSize overlap. 0 < chunkSize \<Longrightarrow> 0 \<le> overlap \<Longrightarrow>
      overlap < chunkSize \<Longrightarrow>
        int (loopIterations text chunkSize overlap) \<le>
          ceilDiv (int (length text)) (chunkSize - overlap) + C"
    by blast
  define n where "n = nat (max C 0) + 1"
  have n: "C < int n" "1 \<le> n" by (simp_all add: n_def)
  have it: "loopIterations (dotText (5 * n)) 5 0 = 5 * n"
    using n by (intro loopIterations_dotText) simp
  have "ceilDiv (int (length (dotText (5 * n)))) (5 - 0) = 4 * int n"
    by (simp add: ceilDiv_def dotText_length)
  with C [of 5 0 "dotText (5 * n)"] it have "5 * int n \<le> 4 * int n + C" by simp
  with n show False by simp
qed

subsection \<open>The chunks cover the text\<close>

lemma trim_take_drop: "trim s = take (length (trim s)) (drop (leading s) s)"
proof -
  have "drop (leading s) s = dropWhile isWhiteSpace s"
    by (simp add: leading_def dropWhile_eq_drop)
  also have "\<dots> = trim s @ rev (takeWhile isWhiteSpace (rev (dropWhile isWhiteSpace s)))"
    by (rule trim_decomp)
  finally show ?thesis by simp
qed

lemma trim_length_le: "length (trim s) \<le> length (drop (leading s) s)"
proof -
  have "drop (leading s) s = dropWhile isWhiteSpace s"
    by (simp add: leading_def dropWhile_eq_drop)
  also have "\<dots> = trim s @ rev (takeWhile isWhiteSpace (rev (dropWhile isWhiteSpace s)))"
    by (rule trim_decomp)
  finally have "length (drop (leading s) s) =
      length (trim s) + length (rev (takeWhile isWhiteSpace (rev (dropWhile isWhiteSpace s))))"
    by (metis length_append)
  then show ?thesis by linarith
qed

lemma trim_covers:
  assumes "i < length s" "\<not> isWhiteSpace (s ! i)"
  shows "leading s \<le> i \<and> i < leading s + length (trim s)"
proof -
  let ?d = "dropWhile isWhiteSpace s"
  let ?w = "rev (takeWhile isWhiteSpace (rev ?d))"
  have l: "leading s \<le> i"
  proof (rule ccontr)
    assume "\<not> leading s \<le> i"
    then have "i < length (takeWhile isWhiteSpace s)" by (simp add: leading_def)
    then have "isWhiteSpace (s ! i)"
      by (metis nth_mem set_takeWhileD takeWhile_nth)
    with assms show False by simp
  qed
  have d: "?d = drop (leading s) s" by (simp add: leading_def dropWhile_eq_drop)
  have dec: "?d = trim s @ ?w" by (rule trim_decomp)
  have il: "i - leading s < length ?d" using assms l by (simp add: d)
  have nth: "?d ! (i - leading s) = s ! i" using assms l by (simp add: d)
  have "i - leading s < length (trim s)"
  proof (rule ccontr)
    assume a: "\<not> i - leading s < length (trim s)"
    have "?d ! (i - leading s) = ?w ! (i - leading s - length (trim s))"
      using a by (subst dec) (simp add: nth_append)
    moreover have "i - leading s - length (trim s) < length ?w"
      using il a by (subst (asm) dec) simp
    then have "?w ! (i - leading s - length (trim s)) \<in> set ?w" by (rule nth_mem)
    then have "isWhiteSpace (?w ! (i - leading s - length (trim s)))"
      by (auto dest: set_takeWhileD)
    ultimately show False using nth assms by simp
  qed
  with l show ?thesis by simp
qed

lemma leading_not_ws:
  assumes "trim s \<noteq> []"
  shows "leading s < length s \<and> \<not> isWhiteSpace (s ! leading s)"
proof -
  have d: "dropWhile isWhiteSpace s \<noteq> []"
  proof
    assume "dropWhile isWhiteSpace s = []"
    then have "trim s = []" unfolding trim_def by (simp del: dropWhile_eq_Nil_conv)
    with assms show False by simp
  qed
  have "length (takeWhile isWhiteSpace s) + length (dropWhile isWhiteSpace s) = length s"
    by (metis length_append takeWhile_dropWhile_id)
  with d have "leading s < length s"
    unfolding leading_def by (cases "dropWhile isWhiteSpace s") simp_all
  moreover have "\<not> isWhiteSpace (s ! leading s)"
    unfolding leading_def using calculation
    by (metis leading_def nth_length_takeWhile)
  ultimately show ?thesis by simp
qed

lemma leading_ws: "i < leading s \<Longrightarrow> isWhiteSpace (s ! i)"
  unfolding leading_def by (metis nth_mem set_takeWhileD takeWhile_nth)

lemma chunkWindows_props:
  "0 < chunkSize \<Longrightarrow> 0 \<le> overlap \<Longrightarrow>
   (\<forall>w \<in> set (chunkWindows text chunkSize overlap start).
      start \<le> fst w \<and> fst w < int (length text) \<and> fst w < snd w) \<and>
   sorted_wrt (\<lambda>a b. fst a < fst b) (chunkWindows text chunkSize overlap start) \<and>
   (\<forall>p. start \<le> p \<and> p < int (length text) \<longrightarrow>
      (\<exists>w \<in> set (chunkWindows text chunkSize overlap start). fst w \<le> p \<and> p < snd w))"
proof (induction "text" chunkSize overlap start rule: chunkWindows.induct)
  case (1 tx chunkSize overlap start)
  note cs = \<open>0 < chunkSize\<close> and ov = \<open>0 \<le> overlap\<close>
  let ?e = "chunkEnd tx chunkSize start"
  let ?s' = "max (start + 1) (?e - overlap)"
  let ?n = "int (length tx)"
  have e: "start < ?e" using chunkEnd_lower [OF cs, of start tx] cs
    by (smt (verit) pos_imp_zdiv_nonneg_iff)
  have s': "start < ?s'" "?s' \<le> ?e" using e ov by auto
  show ?case
  proof (cases "start < ?n")
    case False
    then show ?thesis by (simp add: chunkWindows.simps [of tx chunkSize overlap start])
  next
    case lt: True
    show ?thesis
    proof (cases "?s' \<ge> ?n")
      case True
      then have w: "chunkWindows tx chunkSize overlap start = [(start, ?e)]"
        using lt by (simp add: chunkWindows.simps [of tx chunkSize overlap start] Let_def)
      show ?thesis unfolding w using lt e s' True by auto
    next
      case False
      then have w: "chunkWindows tx chunkSize overlap start =
          (start, ?e) # chunkWindows tx chunkSize overlap ?s'"
        using lt by (simp add: chunkWindows.simps [of tx chunkSize overlap start] Let_def)
      note IH = "1.IH" [OF lt refl refl False cs ov]
      from IH have A: "\<forall>w \<in> set (chunkWindows tx chunkSize overlap ?s').
          ?s' \<le> fst w \<and> fst w < ?n \<and> fst w < snd w" by blast
      from IH have B: "sorted_wrt (\<lambda>a b. fst a < fst b) (chunkWindows tx chunkSize overlap ?s')"
        by blast
      from IH have C: "\<forall>p. ?s' \<le> p \<and> p < ?n \<longrightarrow>
          (\<exists>w \<in> set (chunkWindows tx chunkSize overlap ?s'). fst w \<le> p \<and> p < snd w)" by blast
      have 1: "\<forall>w \<in> set (chunkWindows tx chunkSize overlap start).
          start \<le> fst w \<and> fst w < ?n \<and> fst w < snd w"
        unfolding w using A lt e s'(1) by auto
      have 2: "sorted_wrt (\<lambda>a b. fst a < fst b) (chunkWindows tx chunkSize overlap start)"
        unfolding w using A B s'(1) by auto
      have 3: "\<forall>p. start \<le> p \<and> p < ?n \<longrightarrow>
          (\<exists>w \<in> set (chunkWindows tx chunkSize overlap start). fst w \<le> p \<and> p < snd w)"
      proof (intro allI impI)
        fix p assume p: "start \<le> p \<and> p < ?n"
        show "\<exists>w \<in> set (chunkWindows tx chunkSize overlap start). fst w \<le> p \<and> p < snd w"
        proof (cases "p < ?e")
          case True
          with p show ?thesis unfolding w by auto
        next
          case False
          with s'(2) p have "?s' \<le> p \<and> p < ?n" by simp
          with C show ?thesis unfolding w by auto
        qed
      qed
      from 1 2 3 show ?thesis by blast
    qed
  qed
qed

lemma substring_window:
  assumes "0 \<le> s" "s < int (length text)" "s < e"
  shows "substring text s e = take (nat (min e (int (length text)) - s)) (drop (nat s) text)"
  using assms by (auto simp: substring_def Let_def min_def max_def)

lemma substring_window_nth:
  assumes "0 \<le> s" "s < int (length text)" "s < e" "i < length (substring text s e)"
  shows "substring text s e ! i = text ! (nat s + i)"
  using assms by (simp add: substring_window)

lemma substring_window_length:
  assumes "0 \<le> s" "s < int (length text)" "s < e"
  shows "length (substring text s e) = nat (min e (int (length text)) - s)"
  using assms by (auto simp: substring_window)

lemma windowChunk_occurs:
  assumes "0 \<le> fst w" "fst w < int (length text)" "fst w < snd w"
  shows "occursAt text (chunkOffset text w) (windowChunk text w)"
proof -
  let ?sub = "substring text (fst w) (snd w)"
  let ?n = "nat (min (snd w) (int (length text)) - fst w)"
  let ?k = "length (trim ?sub)"
  have sub: "?sub = take ?n (drop (nat (fst w)) text)" by (rule substring_window [OF assms])
  have k: "?k \<le> length (drop (leading ?sub) ?sub)" by (rule trim_length_le)
  have "drop (leading ?sub) ?sub = take (?n - leading ?sub) (drop (chunkOffset text w) text)"
    by (subst (2) sub) (simp add: drop_take chunkOffset_def add.commute)
  then have "trim ?sub = take ?k (take (?n - leading ?sub) (drop (chunkOffset text w) text))"
    using trim_take_drop [of ?sub] by simp
  moreover have "?k \<le> ?n - leading ?sub"
    using k by (simp add: substring_window_length [OF assms])
  ultimately have "trim ?sub = take ?k (drop (chunkOffset text w) text)"
    by (simp add: min_def)
  then show ?thesis by (simp add: occursAt_def windowChunk_def)
qed

lemma chunkOffset_props:
  assumes "0 \<le> fst w" "fst w < int (length text)" "fst w < snd w" "windowChunk text w \<noteq> []"
  shows "nat (fst w) \<le> chunkOffset text w"
    and "chunkOffset text w < length text"
    and "\<not> isWhiteSpace (text ! chunkOffset text w)"
    and "\<And>p. nat (fst w) \<le> p \<Longrightarrow> p < chunkOffset text w \<Longrightarrow> isWhiteSpace (text ! p)"
proof -
  let ?sub = "substring text (fst w) (snd w)"
  have L: "leading ?sub < length ?sub" "\<not> isWhiteSpace (?sub ! leading ?sub)"
    using leading_not_ws [of ?sub] assms(4) by (simp_all add: windowChunk_def)
  have len: "length ?sub = nat (min (snd w) (int (length text)) - fst w)"
    by (rule substring_window_length [OF assms(1-3)])
  show "nat (fst w) \<le> chunkOffset text w" by (simp add: chunkOffset_def)
  show "chunkOffset text w < length text"
    using L(1) len assms(1,2) by (simp add: chunkOffset_def)
  show "\<not> isWhiteSpace (text ! chunkOffset text w)"
    using L substring_window_nth [OF assms(1-3) L(1)] by (simp add: chunkOffset_def)
  show "isWhiteSpace (text ! p)" if p: "nat (fst w) \<le> p" "p < chunkOffset text w" for p
  proof -
    have i: "p - nat (fst w) < leading ?sub" using p by (simp add: chunkOffset_def)
    then have "isWhiteSpace (?sub ! (p - nat (fst w)))" by (rule leading_ws)
    moreover have "p - nat (fst w) < length ?sub" using i L(1) by simp
    from substring_window_nth [OF assms(1-3) this]
    have "?sub ! (p - nat (fst w)) = text ! p" using p(1) by simp
    ultimately show ?thesis by simp
  qed
qed

lemma chunkOffset_mono:
  assumes "0 \<le> fst a" "fst a < int (length text)" "fst a < snd a" "windowChunk text a \<noteq> []"
    and "0 \<le> fst b" "fst b < int (length text)" "fst b < snd b" "windowChunk text b \<noteq> []"
    and "fst a < fst b"
  shows "chunkOffset text a \<le> chunkOffset text b"
proof (rule ccontr)
  assume "\<not> chunkOffset text a \<le> chunkOffset text b"
  then have lt: "chunkOffset text b < chunkOffset text a" by simp
  have "nat (fst a) \<le> chunkOffset text b"
    using chunkOffset_props(1) [OF assms(5-8)] assms(1,9) by linarith
  from chunkOffset_props(4) [OF assms(1-4) this lt] chunkOffset_props(3) [OF assms(5-8)]
  show False by simp
qed

lemma window_covers:
  assumes "0 \<le> fst w" "fst w < int (length text)" "fst w < snd w"
    and "fst w \<le> int p" "int p < snd w" "p < length text" "\<not> isWhiteSpace (text ! p)"
  shows "windowChunk text w \<noteq> [] \<and> chunkOffset text w \<le> p \<and>
         p < chunkOffset text w + length (windowChunk text w)"
proof -
  let ?sub = "substring text (fst w) (snd w)"
  let ?i = "p - nat (fst w)"
  have i: "?i < length ?sub"
    using assms by (simp add: substring_window_length [OF assms(1-3)])
  have "?sub ! ?i = text ! p"
    using substring_window_nth [OF assms(1-3) i] assms(1,4) by simp
  with assms(7) have "\<not> isWhiteSpace (?sub ! ?i)" by simp
  from trim_covers [OF i this]
  have "leading ?sub \<le> ?i" "?i < leading ?sub + length (trim ?sub)" by simp_all
  then show ?thesis
    using assms(1,4) by (auto simp: chunkOffset_def windowChunk_def)
qed

lemma loop_chunks_cover:
  fixes tx :: jsstring
  assumes "0 < chunkSize" "0 \<le> overlap"
  defines "W \<equiv> chunkWindows tx chunkSize overlap 0"
  defines "NE \<equiv> filter (\<lambda>w. windowChunk tx w \<noteq> []) W"
  shows "coveredBy tx (map (chunkOffset tx) NE) (map (windowChunk tx) NE)"
proof -
  note P = chunkWindows_props [OF assms(1,2), of tx 0, folded W_def]
  from P have valid: "\<And>w. w \<in> set W \<Longrightarrow> 0 \<le> fst w \<and> fst w < int (length tx) \<and> fst w < snd w"
    by blast
  from P have srt: "sorted_wrt (\<lambda>a b. fst a < fst b) W" by blast
  from P have cov: "\<And>p. 0 \<le> p \<Longrightarrow> p < int (length tx) \<Longrightarrow> \<exists>w \<in> set W. fst w \<le> p \<and> p < snd w"
    by blast
  have NE: "\<And>w. w \<in> set NE \<Longrightarrow> w \<in> set W \<and> windowChunk tx w \<noteq> []"
    by (simp add: NE_def)
  have "sorted_wrt (\<lambda>a b. fst a < fst b) NE"
    unfolding NE_def using srt by (rule sorted_wrt_filter)
  then have "sorted_wrt (\<lambda>a b. chunkOffset tx a \<le> chunkOffset tx b) NE"
  proof (rule sorted_wrt_mono_rel [rotated])
    fix a b assume "a \<in> set NE" "b \<in> set NE" "fst a < fst b"
    then show "chunkOffset tx a \<le> chunkOffset tx b"
      using NE valid by (intro chunkOffset_mono) auto
  qed
  then have 1: "sorted (map (chunkOffset tx) NE)" by (simp add: sorted_map)
  have "occursAt tx (chunkOffset tx w) (windowChunk tx w)" if "w \<in> set NE" for w
    using NE [OF that] valid [of w] by (intro windowChunk_occurs) simp_all
  then have 2: "list_all2 (occursAt tx) (map (chunkOffset tx) NE) (map (windowChunk tx) NE)"
    unfolding list_all2_map1 list_all2_map2 list_all2_same by blast
  have 3: "\<exists>i \<in> {..< length (map (windowChunk tx) NE)}.
        map (chunkOffset tx) NE ! i \<le> p \<and>
        p < map (chunkOffset tx) NE ! i + length (map (windowChunk tx) NE ! i)"
    if p: "p < length tx" "\<not> isWhiteSpace (tx ! p)" for p
  proof -
    from cov [of "int p"] p(1) obtain w where w: "w \<in> set W" "fst w \<le> int p" "int p < snd w"
      by auto
    from valid [OF w(1)] have v: "0 \<le> fst w" "fst w < int (length tx)" "fst w < snd w"
      by simp_all
    note C = window_covers [OF v w(2,3) p]
    then have "w \<in> set NE" using w(1) by (simp add: NE_def)
    then obtain i where i: "i < length NE" "NE ! i = w" by (auto simp: in_set_conv_nth)
    with C show ?thesis by (intro bexI [of _ i]) auto
  qed
  from 1 2 3 show ?thesis unfolding coveredBy_def by blast
qed

text \<open>
  C2. For a positive chunk size and an overlap that is not negative and less than the
  chunk size, the chunks returned stand in the text at offsets that never decrease, and
  every character of the text that is not white space lies inside one of them: put
  back at their offsets, the chunks give all of the text but white space, in order and
  without a gap. The worker's chunker returns the same chunks.
\<close>

theorem chunks_cover_text:
  assumes "0 < chunkSize" "0 \<le> overlap" "overlap < chunkSize"
  shows "(\<exists>offs. coveredBy text offs (splitTextIntoChunks text chunkSize overlap)) \<and>
         (\<exists>offs. coveredBy text offs (worker_splitTextIntoChunks text chunkSize overlap))"
proof -
  have w: "worker_splitTextIntoChunks text chunkSize overlap =
      splitTextIntoChunks text chunkSize overlap"
    by (simp add: worker_splitTextIntoChunks_def splitTextIntoChunks_def worker_splitLoop_eq)
  have "\<exists>offs. coveredBy text offs (splitTextIntoChunks text chunkSize overlap)"
  proof (cases "text = [] \<or> int (length text) \<le> chunkSize")
    case True
    then have "splitTextIntoChunks text chunkSize overlap = [text]"
      by (auto simp: splitTextIntoChunks_def)
    moreover have "coveredBy text [0] [text]"
      by (auto simp: coveredBy_def occursAt_def)
    ultimately show ?thesis by auto
  next
    case False
    then have "splitTextIntoChunks text chunkSize overlap =
        filter (\<lambda>c. c \<noteq> []) (map (windowChunk text) (chunkWindows text chunkSize overlap 0))"
      by (intro splitTextIntoChunks_loop) auto
    also have "\<dots> = map (windowChunk text)
        (filter (\<lambda>w. windowChunk text w \<noteq> []) (chunkWindows text chunkSize overlap 0))"
      by (simp add: filter_map comp_def)
    finally show ?thesis
      using loop_chunks_cover [OF assms(1,2), of "text"] by auto
  qed
  then show ?thesis unfolding w by simp
qed

theorem chunks_cover_text_witness:
  "(0::int) < 8 \<and> (0::int) \<le> 2 \<and> (2::int) < 8 \<and>
   (\<exists>offs. coveredBy (js ''ab cd. efgh ij'') offs
      (splitTextIntoChunks (js ''ab cd. efgh ij'') 8 2)) \<and>
   (\<exists>offs. coveredBy (js ''ab cd. efgh ij'') offs
      (worker_splitTextIntoChunks (js ''ab cd. efgh ij'') 8 2))"
  using chunks_cover_text [of 8 2 "js ''ab cd. efgh ij''"] by simp

section \<open>Regular expressions\<close>

text \<open>
  \<open>TextFormatter\<close> works with JavaScript regular expressions. They are modelled by a
  syntax tree and a backtracking matcher. A character class is a list of items (a code
  unit, a range, \<open>\s\<close>, \<open>\d\<close>) with a flag for negation; \<open>Rep lo hi r\<close> is the greedy
  quantifier \<open>r{lo,hi}\<close> (\<open>None\<close> for no upper bound); \<open>Bol\<close>, \<open>Eol\<close> and \<open>WordB\<close> are
  \<open>^\<close>, \<open>$\<close> and \<open>\b\<close>; \<open>LookBehind\<close> is \<open>(?<=[...])\<close>.
\<close>

datatype classItem = Code jschar | Range jschar jschar | Space | Digit

datatype regex =
    CharSet bool "classItem list"
  | Dot
  | Bol
  | Eol
  | WordB
  | LookBehind "classItem list"
  | Epsilon
  | Cat regex regex
  | Alt regex regex
  | Rep nat "nat option" regex

record flags =
  ignoreCase :: bool
  multiline :: bool

text \<open>
  A position of the matcher: the character before it (none at the start of the string),
  which \<open>^\<close>, \<open>\b\<close> and the look-behind read, and the rest of the string.
\<close>

type_synonym mstate = "jschar option \<times> jsstring"

definition isLineTerminator :: "jschar \<Rightarrow> bool" where
  "isLineTerminator c \<longleftrightarrow> c = 10 \<or> c = 13 \<or> c = 8232 \<or> c = 8233"

definition isWordChar :: "jschar \<Rightarrow> bool" where
  "isWordChar c \<longleftrightarrow> (97 \<le> c \<and> c \<le> 122) \<or> (65 \<le> c \<and> c \<le> 90) \<or> (48 \<le> c \<and> c \<le> 57) \<or> c = 95"

text \<open>
  With the flag \<open>i\<close> two characters match when their canonical forms agree. The patterns
  of this program hold ASCII characters, white space and the bullet U+2022 only, and a
  character outside ASCII never has an ASCII canonical form: so it is enough to fold the
  case of the ASCII letters.
\<close>

definition toUpperAscii :: "jschar \<Rightarrow> jschar" where
  "toUpperAscii c = (if 97 \<le> c \<and> c \<le> 122 then c - 32 else c)"

definition toLowerAscii :: "jschar \<Rightarrow> jschar" where
  "toLowerAscii c = (if 65 \<le> c \<and> c \<le> 90 then c + 32 else c)"

fun itemMatches :: "classItem \<Rightarrow> jschar \<Rightarrow> bool" where
  "itemMatches (Code a) c = (c = a)"
| "itemMatches (Range a b) c = (a \<le> c \<and> c \<le> b)"
| "itemMatches Space c = isWhiteSpace c"
| "itemMatches Digit c = (48 \<le> c \<and> c \<le> 57)"

definition classMatches :: "classItem list \<Rightarrow> jschar \<Rightarrow> bool" where
  "classMatches items c = list_ex (\<lambda>it. itemMatches it c) items"

definition setMatches :: "flags \<Rightarrow> bool \<Rightarrow> classItem list \<Rightarrow> jschar \<Rightarrow> bool" where
  "setMatches fl neg items c =
     (let found = (if ignoreCase fl
                   then classMatches items c \<or> classMatches items (toUpperAscii c) \<or>
                        classMatches items (toLowerAscii c)
                   else classMatches items c)
      in found \<noteq> neg)"

text \<open>
  \<open>rmatch fl r s\<close> lists the positions where a match of \<open>r\<close> begun at \<open>s\<close> can end, in the
  order backtracking tries them: the head is the match JavaScript reports. In \<open>rep\<close> the
  second number bounds the iterations left; an iteration that matches the empty string
  once the minimum is reached is refused, as in the language definition.
\<close>

primrec rep :: "(mstate \<Rightarrow> mstate list) \<Rightarrow> nat \<Rightarrow> nat \<Rightarrow> mstate \<Rightarrow> mstate list" where
  "rep f lo 0 s = (if lo = 0 then [s] else [])"
| "rep f lo (Suc n) s =
     concat (map (\<lambda>s'. if lo = 0 \<and> length (snd s) \<le> length (snd s') then []
                         else rep f (lo - 1) n s') (f s))
     @ (if lo = 0 then [s] else [])"

fun rmatch :: "flags \<Rightarrow> regex \<Rightarrow> mstate \<Rightarrow> mstate list" where
  "rmatch fl (CharSet neg items) (p, []) = []"
| "rmatch fl (CharSet neg items) (p, c # cs) =
     (if setMatches fl neg items c then [(Some c, cs)] else [])"
| "rmatch fl Dot (p, []) = []"
| "rmatch fl Dot (p, c # cs) = (if isLineTerminator c then [] else [(Some c, cs)])"
| "rmatch fl Bol (p, cs) =
     (case p of None \<Rightarrow> [(p, cs)]
      | Some c \<Rightarrow> if multiline fl \<and> isLineTerminator c then [(p, cs)] else [])"
| "rmatch fl Eol (p, cs) =
     (case cs of [] \<Rightarrow> [(p, cs)]
      | c # _ \<Rightarrow> if multiline fl \<and> isLineTerminator c then [(p, cs)] else [])"
| "rmatch fl WordB (p, cs) =
     (let a = (case p of None \<Rightarrow> False | Some c \<Rightarrow> isWordChar c);
          b = (case cs of [] \<Rightarrow> False | c # _ \<Rightarrow> isWordChar c)
      in if a \<noteq> b then [(p, cs)] else [])"
| "rmatch fl (LookBehind items) (p, cs) =
     (case p of None \<Rightarrow> []
      | Some c \<Rightarrow> if setMatches fl False items c then [(p, cs)] else [])"
| "rmatch fl Epsilon s = [s]"
| "rmatch fl (Cat a b) s = concat (map (rmatch fl b) (rmatch fl a s))"
| "rmatch fl (Alt a b) s = rmatch fl a s @ rmatch fl b s"
| "rmatch fl (Rep lo hi r) s =
     rep (rmatch fl r) lo (case hi of None \<Rightarrow> lo + length (snd s) | Some h \<Rightarrow> h) s"

text \<open>Shorthands for writing the patterns.\<close>

definition ch :: "char \<Rightarrow> regex" where
  "ch c = CharSet False [Code (of_char c)]"

definition lit :: "string \<Rightarrow> regex" where
  "lit s = foldr (\<lambda>c r. Cat (ch c) r) s Epsilon"

definition seqs :: "regex list \<Rightarrow> regex" where
  "seqs rs = foldr Cat rs Epsilon"

definition alts :: "regex list \<Rightarrow> regex" where
  "alts rs = foldr Alt (butlast rs) (last rs)"

definition rstar :: "regex \<Rightarrow> regex" where "rstar r = Rep 0 None r"
definition rplus :: "regex \<Rightarrow> regex" where "rplus r = Rep 1 None r"
definition ropt :: "regex \<Rightarrow> regex" where "ropt r = Rep 0 (Some 1) r"

definition noFlags :: flags where "noFlags = \<lparr>ignoreCase = False, multiline = False\<rparr>"
definition flagI :: flags where "flagI = \<lparr>ignoreCase = True, multiline = False\<rparr>"
definition flagM :: flags where "flagM = \<lparr>ignoreCase = False, multiline = True\<rparr>"
definition flagMI :: flags where "flagMI = \<lparr>ignoreCase = True, multiline = True\<rparr>"


subsection \<open>The string methods that take a regular expression\<close>

text \<open>
  \<open>searchFrom\<close> is the search of \<open>RegExp.prototype.exec\<close>: the leftmost position with a
  match, and there the first match in backtracking order. It returns the text skipped
  and the position after the match. \<open>test\<close> and \<open>String.prototype.match\<close> (used for its
  truth value only) ask whether the search succeeds; the patterns they are called on
  carry no \<open>g\<close> flag, so no \<open>lastIndex\<close> is kept between calls. \<open>replaceFirst\<close> is
  \<open>replace\<close> with a pattern without \<open>g\<close>, \<open>replaceAll\<close> is \<open>replace\<close> with a \<open>g\<close> pattern:
  after an empty match the character at the position is copied and the search moves on
  by one. \<open>replaceAllGroup\<close> is \<open>replace\<close> for a \<open>g\<close> pattern of the form
  \<open>pre(grp)post\<close> whose replacement is built from \<open>$1\<close>. \<open>splitRx\<close> is \<open>split\<close> with a
  pattern without groups, \<open>splitOn\<close> is \<open>split\<close> with a one-character string, \<open>joinWith\<close>
  is \<open>Array.prototype.join\<close>.
\<close>

definition consumed :: "mstate \<Rightarrow> mstate \<Rightarrow> jsstring" where
  "consumed s s' = take (length (snd s) - length (snd s')) (snd s)"

definition matchAt :: "flags \<Rightarrow> regex \<Rightarrow> mstate \<Rightarrow> mstate option" where
  "matchAt fl r s = (case rmatch fl r s of [] \<Rightarrow> None | s' # _ \<Rightarrow> Some s')"

fun searchFrom ::
  "flags \<Rightarrow> regex \<Rightarrow> jschar option \<Rightarrow> jsstring \<Rightarrow> (jsstring \<times> mstate) option" where
  "searchFrom fl r p [] =
     (case matchAt fl r (p, []) of None \<Rightarrow> None | Some s' \<Rightarrow> Some ([], s'))"
| "searchFrom fl r p (c # cs) =
     (case matchAt fl r (p, c # cs) of
        Some s' \<Rightarrow> Some ([], s')
      | None \<Rightarrow>
          (case searchFrom fl r (Some c) cs of
             None \<Rightarrow> None
           | Some (skipped, s') \<Rightarrow> Some (c # skipped, s')))"

definition test :: "flags \<Rightarrow> regex \<Rightarrow> jsstring \<Rightarrow> bool" where
  "test fl r str = (case searchFrom fl r None str of None \<Rightarrow> False | Some _ \<Rightarrow> True)"

definition replaceFirst :: "flags \<Rightarrow> regex \<Rightarrow> jsstring \<Rightarrow> jsstring \<Rightarrow> jsstring" where
  "replaceFirst fl r repl str =
     (case searchFrom fl r None str of
        None \<Rightarrow> str
      | Some (skipped, s') \<Rightarrow> skipped @ repl @ snd s')"

function replaceLoop ::
  "(mstate \<Rightarrow> (mstate \<times> jsstring) option) \<Rightarrow> jschar option \<Rightarrow> jsstring \<Rightarrow> jsstring" where
  "replaceLoop m p cs =
     (case m (p, cs) of
        None \<Rightarrow> (case cs of [] \<Rightarrow> [] | c # cs' \<Rightarrow> c # replaceLoop m (Some c) cs')
      | Some (s', out) \<Rightarrow>
          if length (snd s') < length cs then out @ replaceLoop m (fst s') (snd s')
          else (case cs of [] \<Rightarrow> out | c # cs' \<Rightarrow> out @ c # replaceLoop m (Some c) cs'))"
  by pat_completeness auto
termination
  by (relation "measure (\<lambda>(m, p, cs). length cs)") auto

definition replaceAll :: "flags \<Rightarrow> regex \<Rightarrow> jsstring \<Rightarrow> jsstring \<Rightarrow> jsstring" where
  "replaceAll fl r repl str =
     replaceLoop (\<lambda>s. case matchAt fl r s of None \<Rightarrow> None | Some s' \<Rightarrow> Some (s', repl)) None str"

definition matchGroup :: "flags \<Rightarrow> regex \<Rightarrow> regex \<Rightarrow> regex \<Rightarrow> mstate \<Rightarrow> (mstate \<times> jsstring) list" where
  "matchGroup fl pre grp post s =
     concat (map (\<lambda>s1. concat (map (\<lambda>s2. map (\<lambda>s3. (s3, consumed s1 s2)) (rmatch fl post s2))
                                   (rmatch fl grp s1)))
                 (rmatch fl pre s))"

definition replaceAllGroup ::
  "flags \<Rightarrow> regex \<Rightarrow> regex \<Rightarrow> regex \<Rightarrow> (jsstring \<Rightarrow> jsstring) \<Rightarrow> jsstring \<Rightarrow> jsstring" where
  "replaceAllGroup fl pre grp post tmpl str =
     replaceLoop (\<lambda>s. case matchGroup fl pre grp post s of
                         [] \<Rightarrow> None
                       | (s3, g) # _ \<Rightarrow> Some (s3, tmpl g)) None str"

function splitLoopRx ::
  "flags \<Rightarrow> regex \<Rightarrow> jsstring \<Rightarrow> jschar option \<Rightarrow> jsstring \<Rightarrow> jsstring list" where
  "splitLoopRx fl r piece p [] = [piece]"
| "splitLoopRx fl r piece p (c # cs) =
     (case matchAt fl r (p, c # cs) of
        None \<Rightarrow> splitLoopRx fl r (piece @ [c]) (Some c) cs
      | Some s' \<Rightarrow>
          if length (snd s') < length (c # cs) then piece # splitLoopRx fl r [] (fst s') (snd s')
          else if piece = [] then splitLoopRx fl r [c] (Some c) cs
          else piece # splitLoopRx fl r [c] (Some c) cs)"
  by pat_completeness auto
termination
  by (relation "measure (\<lambda>(fl, r, piece, p, cs). length cs)") auto

definition splitRx :: "flags \<Rightarrow> regex \<Rightarrow> jsstring \<Rightarrow> jsstring list" where
  "splitRx fl r str =
     (if str = [] then (case matchAt fl r (None, []) of None \<Rightarrow> [[]] | Some _ \<Rightarrow> [])
      else splitLoopRx fl r [] None str)"

fun splitOn :: "jschar \<Rightarrow> jsstring \<Rightarrow> jsstring list" where
  "splitOn sep [] = [[]]"
| "splitOn sep (c # cs) =
     (if c = sep then [] # splitOn sep cs
      else (let rest = splitOn sep cs in (c # hd rest) # tl rest))"

fun joinWith :: "jsstring \<Rightarrow> jsstring list \<Rightarrow> jsstring" where
  "joinWith sep [] = []"
| "joinWith sep [x] = x"
| "joinWith sep (x # y # ys) = x @ sep @ joinWith sep (y # ys)"

section \<open>TextFormatter\<close>

text \<open>
  The bullet is U+2022 (8226); 10 is the line feed, 34 the double quote, 39 the
  apostrophe, 96 the backquote.
\<close>

definition chr :: "int \<Rightarrow> regex" where "chr n = CharSet False [Code n]"
definition ws :: regex where "ws = CharSet False [Space]"
definition digit :: regex where "digit = CharSet False [Digit]"
definition bulletChar :: regex where "bulletChar = CharSet False [Code 45, Code 8226, Code 42]"
definition dotParen :: regex where "dotParen = CharSet False [Code 46, Code 41]"
definition spaceTab :: regex where "spaceTab = CharSet False [Code 32, Code 9]"
definition capsClass :: regex where "capsClass = CharSet False [Range 65 90, Space, Code 38, Code 45, Code 39]"
definition capsHeader :: regex where
  "capsHeader = seqs [CharSet False [Range 65 90], Rep 3 None capsClass, Alt (ch CHR '':'') Eol]"
definition bullet :: jsstring where "bullet = [8226, 32]"

subsection \<open>formatAnalysisText\<close>

definition formatAnalysisText :: "jsstring \<Rightarrow> jsstring" where
  "formatAnalysisText text =
     (if text = [] then []
      else
        (let formatted = text;
             formatted = replaceAll flagM (seqs [Bol, Rep 1 (Some 6) (ch CHR ''#''), rplus ws]) [] formatted;
             formatted = replaceAllGroup noFlags (lit ''**'') (rplus (CharSet True [Code 42])) (lit ''**'')
                           (\<lambda>g. g) formatted;
             formatted = replaceAllGroup noFlags (ch CHR ''*'') (rplus (CharSet True [Code 42])) (ch CHR ''*'')
                           (\<lambda>g. g) formatted;
             formatted = replaceAllGroup noFlags (chr 96) (rplus (CharSet True [Code 96])) (chr 96)
                           (\<lambda>g. g) formatted;
             formatted = replaceAll noFlags (Rep 3 None spaceTab) [32] formatted;
             formatted = replaceAll noFlags (Rep 3 None (chr 10)) [10, 10] formatted;
             formatted = replaceAll flagM (seqs [Bol, rstar ws, bulletChar, rplus ws]) bullet formatted;
             formatted = replaceAllGroup flagM (seqs [Bol, rstar ws]) (rplus digit) (seqs [dotParen, rplus ws])
                           (\<lambda>g. g @ [46, 32]) formatted;
             formatted = replaceAll flagM (Alt (Cat Bol (rplus spaceTab)) (Cat (rplus spaceTab) Eol)) []
                           formatted;
             formatted = replaceAll noFlags (Cat (chr 32) (rplus (chr 32))) [32] formatted
         in trim formatted))"

subsection \<open>filterUnwantedContent\<close>

text \<open>
  The ten patterns of \<open>dynamicPatterns\<close>, each with its flags (\<open>g\<close> is the global
  replacement itself), in the order of the source. The \<open>options\<close> argument is not read by
  the source.
\<close>

definition quoteOpt :: regex where "quoteOpt = ropt (chr 34)"
definition capsOrSpace :: regex where "capsOrSpace = CharSet False [Range 65 90, Space]"
definition lowerOrSpace :: regex where "lowerOrSpace = CharSet False [Range 97 122, Space]"
definition letter :: regex where "letter = CharSet False [Range 97 122, Range 65 90]"
definition verbs :: regex where
  "verbs = alts [Cat (lit ''Develope'') (ropt (ch CHR ''d'')), Cat (lit ''Create'') (ropt (ch CHR ''d'')),
                 Cat (lit ''Buil'') (ropt (ch CHR ''t'')), Cat (lit ''Designe'') (ropt (ch CHR ''d''))]"

definition dynamicPatterns :: "(flags \<times> regex) list" where
  "dynamicPatterns =
    [(flagMI, seqs [Bol, quoteOpt, Rep 3 None capsOrSpace,
                    alts [lit ''FOR'', lit ''TO'', lit ''OF'', lit ''WITH'', lit ''IN'', lit ''USING'', lit ''BY''],
                    rplus ws, Rep 3 None capsOrSpace, quoteOpt, rstar ws, Eol]),
     (flagMI, seqs [Bol, quoteOpt, Rep 2 None (Cat (rplus (CharSet False [Range 65 90])) (rstar ws)), verbs,
                    rplus ws, Rep 5 (Some 50) lowerOrSpace, rstar ws, quoteOpt, rstar ws, Eol]),
     (noFlags, seqs [WordB, rplus letter, Rep 1 (Some 3) (Cat (rplus ws) letter), rplus ws, rplus letter, WordB]),
     (flagMI, seqs [Bol, rstar ws,
                    alts [Cat (lit ''LLM'') (rstar digit), lit ''API'', lit ''SDK'', lit ''ML'', lit ''AI'',
                          lit ''NLP'', lit ''SQL''],
                    rstar ws, Rep 0 (Some 10) lowerOrSpace, rstar ws, Eol]),
     (flagMI, seqs [Bol, quoteOpt, verbs, rplus ws, ropt (alts [lit ''a'', lit ''an'', lit ''the'']), rplus ws,
                    Rep 5 (Some 30) (CharSet True [Code 46]), rstar ws, quoteOpt, rstar ws, Eol]),
     (flagMI, seqs [rstar Dot,
                    alts [lit ''This single'', lit ''powerful statement'', lit ''reveals a candidate''],
                    rstar Dot, Eol]),
     (flagMI, seqs [rstar Dot,
                    alts [seqs [lit ''Here'', chr 39, lit ''s a structured breakdown''],
                          lit ''structured analysis''],
                    rstar Dot, Eol]),
     (flagMI, seqs [rstar Dot, lit ''demonstrates hands-on experience with'', rstar Dot, Eol]),
     (flagM, seqs [Bol, chr 34, Rep 5 (Some 50) (CharSet True [Code 34]), chr 34, rstar ws, Eol]),
     (flagMI, seqs [Bol, rstar ws, Rep 2 None (Cat (Rep 2 None (CharSet False [Range 65 90])) (rstar ws)),
                    Rep 0 (Some 20) lowerOrSpace, rstar ws, Eol])]"

definition meaningfulLine :: "jsstring \<Rightarrow> bool" where
  "meaningfulLine line =
     (let trimmed = trim line in
      if trimmed = [] then False
      else if length trimmed < 15 \<and> \<not> test noFlags (seqs [Bol, bulletChar, rplus ws]) trimmed then False
      else if test noFlags (seqs [Bol, Rep 3 None capsOrSpace, Eol]) trimmed then False
      else True)"

definition filterUnwantedContent :: "jsstring \<Rightarrow> jsstring" where
  "filterUnwantedContent text =
     (if text = [] then []
      else
        (let filtered = fold (\<lambda>(fl, pattern) filtered. replaceAll fl pattern [] filtered)
                          dynamicPatterns text;
             lines = splitOn 10 filtered;
             meaningfulLines = filter meaningfulLine lines;
             filtered = joinWith [10] meaningfulLines;
             filtered = replaceAll flagM (seqs [Bol, rstar ws, Eol]) [] filtered;
             filtered = replaceAll noFlags (Rep 3 None (chr 10)) [10, 10] filtered
         in trim filtered))"

subsection \<open>convertToBulletPoints\<close>

text \<open>
  \<open>sentenceSplit\<close> is \<open>line.split(/(?<=[.!?])\s+/).filter(s => s.trim().length > 10)\<close>;
  \<open>trimmedLines\<close> is \<open>text.split('\n').map(line => line.trim()).filter(line => line.length > 0)\<close>.
  \<open>convertSegmentLine\<close> and \<open>convertSingleLine\<close> are the two callbacks that turn one line
  into its bulleted form.
\<close>

definition headerOrBullet :: regex where
  "headerOrBullet = Cat Bol (alts [bulletChar, Cat (rplus digit) dotParen, capsHeader])"

definition sentenceSplit :: "jsstring \<Rightarrow> jsstring list" where
  "sentenceSplit line =
     filter (\<lambda>s. length (trim s) > 10)
       (splitRx noFlags (Cat (LookBehind [Code 46, Code 33, Code 63]) (rplus ws)) line)"

definition trimmedLines :: "jsstring \<Rightarrow> jsstring list" where
  "trimmedLines text = filter (\<lambda>line. length line > 0) (map trim (splitOn 10 text))"

definition bulletizeSentences :: "jsstring list \<Rightarrow> jsstring" where
  "bulletizeSentences sentences = joinWith [10] (map (\<lambda>sentence. bullet @ trim sentence) sentences)"

definition convertSegmentLine :: "nat \<Rightarrow> nat \<Rightarrow> jsstring \<Rightarrow> jsstring" where
  "convertSegmentLine count index line =
     (if test noFlags headerOrBullet line then line
      else if length line > 30 \<and> index = 0 \<and> count = 1 \<and> length (sentenceSplit line) > 1
      then bulletizeSentences (sentenceSplit line)
      else if length line > 15 \<and> \<not> test noFlags (Cat Bol bulletChar) line then bullet @ line
      else line)"

definition convertSingleLine :: "jsstring \<Rightarrow> jsstring" where
  "convertSingleLine line =
     (if test noFlags headerOrBullet line then line
      else if length line > 80 \<and> length (sentenceSplit line) > 1
      then bulletizeSentences (sentenceSplit line)
      else if length line > 15 then bullet @ line
      else line)"

definition convertToBulletPoints :: "jsstring \<Rightarrow> jsstring" where
  "convertToBulletPoints text =
     (if text = [] then []
      else
        (let segments = filter (\<lambda>segment. length (trim segment) > 0)
                          (splitRx noFlags (seqs [chr 10, rstar ws, chr 10]) text)
         in if length segments > 1
            then joinWith [10, 10]
                   (map (\<lambda>segment.
                           (let lines = trimmedLines segment
                            in joinWith [10]
                                 (map (\<lambda>(index, line). convertSegmentLine (length lines) index line)
                                      (enumerate 0 lines))))
                        segments)
            else joinWith [10] (map convertSingleLine (trimmedLines text))))"

subsection \<open>Priority and category of an item\<close>

datatype priority = High | Medium | Low

datatype category = Experience | Technical | Education | Achievement | Leadership | General

definition wordOf :: "regex list \<Rightarrow> regex" where
  "wordOf words = seqs [WordB, alts words, WordB]"

definition assessContentPriority :: "jsstring \<Rightarrow> priority" where
  "assessContentPriority content =
     (let highPriorityKeywords =
            wordOf [lit ''achieved'', lit ''increased'', lit ''improved'', lit ''reduced'', lit ''led'',
                    lit ''managed'', lit ''developed'', lit ''created'', lit ''designed'',
                    lit ''implemented'', lit ''optimized'', lit ''streamlined'', lit ''delivered'',
                    lit ''executed'', lit ''launched'', lit ''built''];
          mediumPriorityKeywords =
            wordOf [lit ''experience'', lit ''skills'', lit ''knowledge'', lit ''proficient'',
                    lit ''familiar'', lit ''worked'', lit ''assisted'', lit ''participated'',
                    lit ''collaborated'', lit ''supported'']
      in if test flagI highPriorityKeywords content then High
         else if test flagI mediumPriorityKeywords content then Medium
         else Low)"

definition categorizeContent :: "jsstring \<Rightarrow> category" where
  "categorizeContent content =
     (if test flagI (wordOf [Cat (lit ''year'') (ropt (ch CHR ''s'')), lit ''experience'', lit ''background''])
           content then Experience
      else if test flagI (wordOf [Cat (lit ''skill'') (ropt (ch CHR ''s'')), lit ''technology'',
                                  lit ''programming'', lit ''software'',
                                  Cat (lit ''tool'') (ropt (ch CHR ''s''))]) content then Technical
      else if test flagI (wordOf [lit ''education'', lit ''degree'', lit ''certification'', lit ''training'',
                                  lit ''course'']) content then Education
      else if test flagI (wordOf [lit ''achieved'', lit ''accomplished'', lit ''delivered'',
                                  lit ''increased'', lit ''improved'']) content then Achievement
      else if test flagI (wordOf [lit ''leadership'', lit ''managed'', lit ''led'', lit ''team'',
                                  lit ''project'']) content then Leadership
      else General)"

subsection \<open>The structured document\<close>

text \<open>
  The objects the parser returns: \<open>{type: 'text', content}\<close>, \<open>{type: 'sections', content}\<close>
  and \<open>{type: 'enhanced_list', content}\<close>. The groups of an enhanced list are the
  properties of an object, kept in the order of their insertion. An item of a section
  has no category.
\<close>

datatype itemType = Bullet | ListItem | Description

record item =
  itemType :: itemType
  content :: jsstring
  priority :: priority
  category :: "category option"

record docSection =
  title :: jsstring
  items :: "item list"

datatype structured =
    TextContent jsstring
  | Sections "docSection list"
  | EnhancedList "(category \<times> item list) list"

definition parseAsBulletList :: "jsstring list \<Rightarrow> structured" where
  "parseAsBulletList lines =
     (let items = map (\<lambda>line.
                    (let content = trim (replaceFirst noFlags (seqs [Bol, bulletChar, rstar ws]) [] line)
                     in \<lparr>itemType = Bullet, content = content,
                         priority = assessContentPriority content,
                         category = Some (categorizeContent content)\<rparr>)) lines
      in EnhancedList [(General, items)])"

definition sectionHeader :: regex where
  "sectionHeader = seqs [Bol, ropt (seqs [rplus digit, ch CHR ''.'', rstar ws]), capsHeader]"

definition sectionBullet :: regex where
  "sectionBullet = seqs [Bol, Alt bulletChar (Cat (rplus digit) dotParen), rplus ws]"

definition sectionStep ::
  "jsstring \<Rightarrow> docSection list \<times> docSection option \<Rightarrow>
   docSection list \<times> docSection option" where
  "sectionStep line st =
     (let sections = fst st; currentSection = snd st in
      if test noFlags sectionHeader line then
        ((case currentSection of None \<Rightarrow> sections | Some cur \<Rightarrow> sections @ [cur]),
         Some \<lparr>title = trim (replaceFirst noFlags (Cat (ch CHR '':'') Eol) []
                               (replaceFirst noFlags (seqs [Bol, rplus digit, ch CHR ''.'', rstar ws]) [] line)),
               items = []\<rparr>)
      else
        (case currentSection of
           None \<Rightarrow> st
         | Some cur \<Rightarrow>
             if test noFlags sectionBullet line then
               (let content = trim (replaceFirst noFlags sectionBullet [] line)
                in (sections,
                    Some (cur\<lparr>items := items cur @
                      [\<lparr>itemType = Bullet, content = content,
                        priority = assessContentPriority content, category = None\<rparr>]\<rparr>)))
             else if length line > 15 then
               (let bulletContent =
                      trim (replaceFirst noFlags
                              (Cat Bol (rstar (CharSet False [Code 45, Code 8226, Code 42, Space]))) [] line)
                in if length bulletContent > 100 then
                     (sections,
                      Some (cur\<lparr>items := items cur @
                        map (\<lambda>sentence. \<lparr>itemType = Bullet, content = trim sentence,
                                          priority = assessContentPriority sentence, category = None\<rparr>)
                            (sentenceSplit bulletContent)\<rparr>))
                   else
                     (sections,
                      Some (cur\<lparr>items := items cur @
                        [\<lparr>itemType = Bullet, content = bulletContent,
                          priority = assessContentPriority bulletContent, category = None\<rparr>]\<rparr>)))
             else st))"

definition parseStructuredSections :: "jsstring list \<Rightarrow> structured" where
  "parseStructuredSections lines =
     (let st = fold sectionStep lines ([], None);
          sections = (case snd st of None \<Rightarrow> fst st | Some cur \<Rightarrow> fst st @ [cur])
      in Sections (map (\<lambda>sec. sec\<lparr>items := map (\<lambda>item. item\<lparr>itemType := Bullet\<rparr>) (items sec)\<rparr>)
                       sections))"

definition priorityOrder :: "priority \<Rightarrow> int" where
  "priorityOrder p = (case p of High \<Rightarrow> 3 | Medium \<Rightarrow> 2 | Low \<Rightarrow> 1)"

fun addToGroup :: "category \<Rightarrow> item \<Rightarrow> (category \<times> item list) list \<Rightarrow> (category \<times> item list) list" where
  "addToGroup k x [] = [(k, [x])]"
| "addToGroup k x ((k', xs) # groups) =
     (if k = k' then (k', xs @ [x]) # groups else (k', xs) # addToGroup k x groups)"

definition groupSimilarContent :: "item list \<Rightarrow> (category \<times> item list) list" where
  "groupSimilarContent its =
     (let groups = fold (\<lambda>item groups.
                           addToGroup (case category item of None \<Rightarrow> General | Some c \<Rightarrow> c) item groups)
                        its []
      in map (\<lambda>(c, group). (c, sort_key (\<lambda>item. - priorityOrder (priority item)) group)) groups)"

definition listPattern :: regex where
  "listPattern = seqs [Bol, alts [bulletChar, Cat (rplus digit) dotParen, Cat (CharSet False [Range 97 122]) dotParen],
                       rplus ws]"

definition headerPattern :: regex where
  "headerPattern = Cat Bol capsHeader"

definition numberedHeaderPattern :: regex where
  "numberedHeaderPattern =
     seqs [Bol, rplus digit, ch CHR ''.'', rstar ws, CharSet False [Range 65 90], Rep 3 None capsClass]"

definition parseListContent :: "jsstring list \<Rightarrow> flags \<times> regex \<Rightarrow> structured" where
  "parseListContent lines pat =
     (let processedItems =
            concat (map (\<lambda>line.
              if test (fst pat) (snd pat) line then
                (let content = trim (replaceFirst (fst pat) (snd pat) [] line)
                 in [\<lparr>itemType = ListItem, content = content,
                      priority = assessContentPriority content,
                      category = Some (categorizeContent content)\<rparr>])
              else if length line > 10 then
                [\<lparr>itemType = Description, content = line,
                  priority = assessContentPriority line, category = None\<rparr>]
              else []) lines)
      in EnhancedList (groupSimilarContent processedItems))"

subsection \<open>parseStructuredContent\<close>

text \<open>
  The input is a string or \<open>null\<close> (\<open>None\<close>). The pattern that \<open>parseListContent\<close> receives
  is passed with its flags. \<open>classifyLines\<close> is the choice that the
  \<open>if\<close> chain at the end of \<open>parseStructuredContent\<close> makes between
  \<open>parseStructuredSections\<close>, \<open>parseListContent\<close> and \<open>parseAsBulletList\<close>; \<open>resultType\<close> is
  the \<open>type\<close> field of the result.
\<close>

datatype structureKind = Sectioned | EnhancedListKind | BulletFallback

definition classifyLines :: "jsstring list \<Rightarrow> structureKind" where
  "classifyLines lines =
     (let listLines = filter (test flagI listPattern) lines;
          headerLines = filter (\<lambda>line. test noFlags headerPattern line \<or>
                                        test noFlags numberedHeaderPattern line) lines;
          hasHeaders = length headerLines > 0;
          hasList = length listLines > 1
      in if hasHeaders then Sectioned
         else if hasList \<or> length lines > 2 then EnhancedListKind
         else BulletFallback)"

definition structuredLines :: "jsstring \<Rightarrow> jsstring list" where
  "structuredLines cleanedText = trimmedLines (convertToBulletPoints cleanedText)"

definition parseStructuredContent :: "jsstring option \<Rightarrow> structured" where
  "parseStructuredContent text =
     (case text of
        None \<Rightarrow> TextContent (js ''No content available'')
      | Some t \<Rightarrow>
          if t = [] then TextContent (js ''No content available'')
          else
            (let cleanedText = filterUnwantedContent (formatAnalysisText t)
             in if cleanedText = [] \<or> length (trim cleanedText) = 0
                then TextContent (js ''Content could not be processed'')
                else
                  (let lines = structuredLines cleanedText
                   in case classifyLines lines of
                        Sectioned \<Rightarrow> parseStructuredSections lines
                      | EnhancedListKind \<Rightarrow> parseListContent lines (flagI, listPattern)
                      | BulletFallback \<Rightarrow> parseAsBulletList lines)))"

definition resultType :: "structured \<Rightarrow> string" where
  "resultType r =
     (case r of TextContent _ \<Rightarrow> ''text'' | Sections _ \<Rightarrow> ''sections''
      | EnhancedList _ \<Rightarrow> ''enhanced_list'')"

definition isHeaderLine :: "jsstring \<Rightarrow> bool" where
  "isHeaderLine line \<longleftrightarrow> test noFlags headerPattern line \<or> test noFlags numberedHeaderPattern line"

definition isListLine :: "jsstring \<Rightarrow> bool" where
  "isListLine line \<longleftrightarrow> test flagI listPattern line"

text \<open>The lines that \<open>parseStructuredContent\<close> classifies, for a given input text.\<close>

definition linesOf :: "jsstring \<Rightarrow> jsstring list" where
  "linesOf text = structuredLines (filterUnwantedContent (formatAnalysisText text))"

text \<open>The inputs of the examples; 39 is the apostrophe.\<close>

definition headerExample :: jsstring where
  "headerExample = js ''EXPERIENCE:\<newline>- Built system X\<newline>- Led team Y''"

definition longHeaderExample :: jsstring where
  "longHeaderExample = js ''EXPERIENCE & SKILLS:\<newline>- Built system X\<newline>- Led team Y''"

definition groupingExample :: jsstring where
  "groupingExample =
     js ''- 5 years experience\<newline>- Python and SQL skills\<newline>- Bachelor'' @ [39] @ js ''s degree''"

definition numberedGroupingExample :: jsstring where
  "numberedGroupingExample =
     js ''1. 5 years experience\<newline>2. Python and SQL skills\<newline>3. Bachelor'' @ [39] @ js ''s degree''"

definition threeLinesExample :: jsstring where
  "threeLinesExample =
     js ''1.abcdefghijklm\<newline>2.abcdefghijklm\<newline>3.abcdefghijklm''"

text \<open>
  The three items as lines of their own, without list markers, and as a list written with
  asterisks.
\<close>

definition plainExample :: jsstring where
  "plainExample =
     js ''5 years experience\<newline>Python and SQL skills\<newline>Bachelor'' @ [39] @ js ''s degree''"

definition starExample :: jsstring where
  "starExample =
     js ''* 5 years experience\<newline>* Python and SQL skills\<newline>* Bachelor'' @ [39] @ js ''s degree''"

section \<open>Vocabulary for reasoning about matches\<close>

text \<open>
  The matcher returns every way a pattern can match, so on a line of letters the nested
  quantifiers of the second and of the last pattern of \<open>dynamicPatterns\<close> have too many
  ways to be enumerated. Their matches are bounded instead through a finite list of states
  that the parts of the pattern do not leave: \<open>closedOn\<close> says that every match of the
  pattern begun in the list ends in the list, \<open>emptyOn\<close> that there is no match from any
  state of the list, \<open>endsOn\<close> that every match begun in the list ends in a given list of
  states. \<open>positions p cs\<close> are the states of a matcher that reads \<open>cs\<close> after the character
  \<open>p\<close>.
\<close>

fun positions :: "jschar option \<Rightarrow> jsstring \<Rightarrow> mstate list" where
  "positions p [] = [(p, [])]"
| "positions p (c # cs) = (p, c # cs) # positions (Some c) cs"

definition closedOn :: "flags \<Rightarrow> regex \<Rightarrow> mstate list \<Rightarrow> bool" where
  "closedOn fl r T = list_all (\<lambda>t. list_all (\<lambda>u. u \<in> set T) (rmatch fl r t)) T"

definition emptyOn :: "flags \<Rightarrow> regex \<Rightarrow> mstate list \<Rightarrow> bool" where
  "emptyOn fl r T = list_all (\<lambda>t. rmatch fl r t = []) T"

definition endsOn :: "flags \<Rightarrow> regex \<Rightarrow> mstate list \<Rightarrow> mstate list \<Rightarrow> bool" where
  "endsOn fl r T E = list_all (\<lambda>t. list_all (\<lambda>u. u \<in> set E) (rmatch fl r t)) T"

text \<open>
  \<open>replaceAllKnown s0 v\<close> is \<open>replaceAll\<close> with the match at the state \<open>s0\<close> given as \<open>v\<close>
  and not computed; lemma \<open>replaceAll_known\<close> shows that it is \<open>replaceAll\<close> when \<open>v\<close> is
  that match.
\<close>

definition matchAtKnown :: "mstate \<Rightarrow> mstate option \<Rightarrow> flags \<Rightarrow> regex \<Rightarrow> mstate \<Rightarrow> mstate option" where
  "matchAtKnown s0 v fl r s = (if s = s0 then v else matchAt fl r s)"

definition replaceAllKnown ::
  "mstate \<Rightarrow> mstate option \<Rightarrow> flags \<Rightarrow> regex \<Rightarrow> jsstring \<Rightarrow> jsstring \<Rightarrow> jsstring" where
  "replaceAllKnown s0 v fl r repl str =
     replaceLoop (\<lambda>s. case matchAtKnown s0 v fl r s of None \<Rightarrow> None | Some s' \<Rightarrow> Some (s', repl))
       None str"

text \<open>
  The stages of \<open>filterUnwantedContent\<close> and of \<open>parseStructuredContent\<close>, named so that an
  example can be followed through them one at a time: \<open>applyPattern k\<close> is one round of the
  \<open>forEach\<close> over \<open>dynamicPatterns\<close>, \<open>afterPatterns\<close> is the rest of
  \<open>filterUnwantedContent\<close>, and \<open>parseCleaned\<close> is \<open>parseStructuredContent\<close> from the cleaned
  text on (lemmas \<open>filterUnwantedContent_stages\<close> and \<open>parseStructuredContent_cleaned\<close>).
\<close>

definition applyPattern :: "nat \<Rightarrow> jsstring \<Rightarrow> jsstring" where
  "applyPattern k t = replaceAll (fst (dynamicPatterns ! k)) (snd (dynamicPatterns ! k)) [] t"

definition afterPatterns :: "jsstring \<Rightarrow> jsstring" where
  "afterPatterns filtered0 =
     (let lines = splitOn 10 filtered0;
          meaningfulLines = filter meaningfulLine lines;
          filtered = joinWith [10] meaningfulLines;
          filtered = replaceAll flagM (seqs [Bol, rstar ws, Eol]) [] filtered;
          filtered = replaceAll noFlags (Rep 3 None (chr 10)) [10, 10] filtered
      in trim filtered)"

definition parseCleaned :: "jsstring \<Rightarrow> structured" where
  "parseCleaned cleanedText =
     (if cleanedText = [] \<or> length (trim cleanedText) = 0
      then TextContent (js ''Content could not be processed'')
      else
        (let lines = structuredLines cleanedText
         in case classifyLines lines of
              Sectioned \<Rightarrow> parseStructuredSections lines
            | EnhancedListKind \<Rightarrow> parseListContent lines (flagI, listPattern)
            | BulletFallback \<Rightarrow> parseAsBulletList lines))"

text \<open>The class \<open>[A-Z]\<close> of the second and of the last pattern.\<close>

definition capsLetter :: regex where
  "capsLetter = CharSet False [Range 65 90]"

text \<open>
  The states of the examples. In \<open>plainExample\<close> the matcher stands at \<open>plainSkills\<close> when it
  reaches the second line and at \<open>plainSkillsEnd\<close> at the end of that line; \<open>plainRun\<close> are
  the states from the start of the second line up to the apostrophe of the third, the
  first character after the second line that is neither a letter nor white space.
  \<open>plainDeleted\<close> is the text without its second line and \<open>plainCleaned\<close> the text that
  \<open>filterUnwantedContent\<close> returns.
\<close>

definition plainSkills :: mstate where
  "plainSkills = (Some 10, js ''Python and SQL skills\<newline>Bachelor'' @ [39] @ js ''s degree'')"

definition plainSkillsEnd :: mstate where
  "plainSkillsEnd = (Some 115, js ''\<newline>Bachelor'' @ [39] @ js ''s degree'')"

definition plainRun :: "mstate list" where
  "plainRun = take 31 (positions (fst plainSkills) (snd plainSkills))"

definition plainDeleted :: jsstring where
  "plainDeleted = js ''5 years experience\<newline>\<newline>Bachelor'' @ [39] @ js ''s degree''"

definition plainCleaned :: jsstring where
  "plainCleaned = js ''5 years experience\<newline>Bachelor'' @ [39] @ js ''s degree''"

text \<open>
  The same for \<open>starExample\<close>. \<open>starFormatted\<close> is what \<open>formatAnalysisText\<close> makes of it: the
  rule for italics takes the first two asterisks for a pair of emphasis markers and removes
  them, and only the third asterisk becomes a bullet. \<open>starRun\<close> ends at that bullet.
\<close>

definition starFormatted :: jsstring where
  "starFormatted =
     js ''5 years experience\<newline>Python and SQL skills\<newline>'' @ bullet @
     js ''Bachelor'' @ [39] @ js ''s degree''"

definition starSkills :: mstate where
  "starSkills =
     (Some 10, js ''Python and SQL skills\<newline>'' @ bullet @ js ''Bachelor'' @ [39] @ js ''s degree'')"

definition starSkillsEnd :: mstate where
  "starSkillsEnd = (Some 115, js ''\<newline>'' @ bullet @ js ''Bachelor'' @ [39] @ js ''s degree'')"

definition starRun :: "mstate list" where
  "starRun = take 23 (positions (fst starSkills) (snd starSkills))"

definition starDeleted :: jsstring where
  "starDeleted =
     js ''5 years experience\<newline>\<newline>'' @ bullet @ js ''Bachelor'' @ [39] @ js ''s degree''"

definition starCleaned :: jsstring where
  "starCleaned = js ''5 years experience\<newline>'' @ bullet @ js ''Bachelor'' @ [39] @ js ''s degree''"

section \<open>Properties of parseStructuredContent\<close>

subsection \<open>Empty input\<close>

text \<open>
  C9. For the empty string and for \<open>null\<close> the parser returns the text result with the
  content \<open>No content available\<close>. Nothing else is computed on this path: no error can
  arise.
\<close>

theorem empty_input_placeholder:
  "parseStructuredContent (Some []) = TextContent (js ''No content available'') \<and>
   parseStructuredContent None = TextContent (js ''No content available'') \<and>
   resultType (parseStructuredContent (Some [])) = ''text'' \<and>
   resultType (parseStructuredContent None) = ''text''"
  by (simp add: parseStructuredContent_def resultType_def)

subsection \<open>The order of the classification\<close>

lemma parseStructuredContent_dispatch:
  assumes "t \<noteq> []" and "trim (filterUnwantedContent (formatAnalysisText t)) \<noteq> []"
  shows "parseStructuredContent (Some t) =
     (case classifyLines (linesOf t) of
        Sectioned \<Rightarrow> parseStructuredSections (linesOf t)
      | EnhancedListKind \<Rightarrow> parseListContent (linesOf t) (flagI, listPattern)
      | BulletFallback \<Rightarrow> parseAsBulletList (linesOf t))"
proof -
  from assms(2) have "filterUnwantedContent (formatAnalysisText t) \<noteq> []"
    by (auto simp: trim_Nil)
  with assms show ?thesis
    by (simp add: parseStructuredContent_def linesOf_def Let_def split: structureKind.split)
qed

text \<open>
  C4. The checks run in the order Sectioned, Enhanced-list, Bullet-fallback and the
  first that holds wins. A document is an Enhanced list when no line is a header and
  either more than one line is a list line or there are more than two lines; it is a
  Bullet fallback when no line is a header, at most one line is a list line and there
  are at most two lines.
\<close>

theorem classification_order:
  "classifyLines lines =
     (if list_ex isHeaderLine lines then Sectioned
      else if 1 < length (filter isListLine lines) \<or> 2 < length lines then EnhancedListKind
      else BulletFallback) \<and>
   (classifyLines lines = EnhancedListKind \<longleftrightarrow>
      \<not> list_ex isHeaderLine lines \<and> (1 < length (filter isListLine lines) \<or> 2 < length lines)) \<and>
   (classifyLines lines = BulletFallback \<longleftrightarrow>
      \<not> list_ex isHeaderLine lines \<and> length (filter isListLine lines) \<le> 1 \<and> length lines \<le> 2)"
proof -
  have h: "(0 < length (filter (\<lambda>line. test noFlags headerPattern line \<or>
              test noFlags numberedHeaderPattern line) lines)) = list_ex isHeaderLine lines"
    by (auto simp: list_ex_iff isHeaderLine_def filter_empty_conv)
  have l: "filter (test flagI listPattern) lines = filter isListLine lines"
    by (simp add: isListLine_def [abs_def])
  have c: "classifyLines lines =
     (if list_ex isHeaderLine lines then Sectioned
      else if 1 < length (filter isListLine lines) \<or> 2 < length lines then EnhancedListKind
      else BulletFallback)"
    unfolding classifyLines_def Let_def h l by simp
  show ?thesis unfolding c by auto
qed

text \<open>
  Three lines that begin with a number and a full stop, without a space after it, are
  neither headers nor list lines; the document is an Enhanced list all the same.
\<close>

lemma threeLinesExample_lines:
  "linesOf threeLinesExample = [js ''1.abcdefghijklm'', js ''2.abcdefghijklm'', js ''3.abcdefghijklm'']"
  by code_simp

lemma threeLinesExample_kind:
  "classifyLines [js ''1.abcdefghijklm'', js ''2.abcdefghijklm'', js ''3.abcdefghijklm''] =
     EnhancedListKind"
  by code_simp

lemma threeLinesExample_list_lines:
  "filter isListLine [js ''1.abcdefghijklm'', js ''2.abcdefghijklm'', js ''3.abcdefghijklm''] = []"
  by code_simp

theorem enhanced_list_without_list_lines_counterexample:
  "classifyLines (linesOf threeLinesExample) = EnhancedListKind \<and>
   filter isListLine (linesOf threeLinesExample) = [] \<and>
   length (linesOf threeLinesExample) = 3"
  unfolding threeLinesExample_lines
  using threeLinesExample_kind threeLinesExample_list_lines by simp

subsection \<open>A short header\<close>

lemma headerExample_result:
  "parseStructuredContent (Some headerExample) =
     EnhancedList
       [(General, [\<lparr>itemType = ListItem, content = js ''Built system X'', priority = High,
                    category = Some General\<rparr>]),
        (Leadership, [\<lparr>itemType = ListItem, content = js ''Led team Y'', priority = High,
                       category = Some Leadership\<rparr>])]"
  by code_simp

lemma headerExample_cleaned:
  "filterUnwantedContent (formatAnalysisText headerExample) =
     bullet @ js ''Built system X\<newline>'' @ bullet @ js ''Led team Y''"
  by code_simp

lemma longHeaderExample_result:
  "parseStructuredContent (Some longHeaderExample) =
     Sections
       [\<lparr>title = js ''EXPERIENCE & SKILLS'',
         items = [\<lparr>itemType = Bullet, content = js ''Built system X'', priority = High,
                    category = None\<rparr>,
                  \<lparr>itemType = Bullet, content = js ''Led team Y'', priority = High,
                    category = None\<rparr>]\<rparr>]"
  by code_simp

text \<open>
  C1. For the input \<open>EXPERIENCE:\<close>, \<open>- Built system X\<close>, \<open>- Led team Y\<close> (three lines) the
  noise filter removes the line \<open>EXPERIENCE:\<close>, which is shorter than 15 characters and
  not a bullet. No header is left: the document is an Enhanced list with the two items
  \<open>Built system X\<close> (group general) and \<open>Led team Y\<close> (group leadership), both of
  priority high. With a header of at least 15 characters, \<open>EXPERIENCE & SKILLS:\<close>, the
  same two bullets give one section with that title and two items of priority high.
\<close>

theorem short_header_filtered:
  "filterUnwantedContent (formatAnalysisText headerExample) =
     bullet @ js ''Built system X\<newline>'' @ bullet @ js ''Led team Y'' \<and>
   parseStructuredContent (Some headerExample) =
     EnhancedList
       [(General, [\<lparr>itemType = ListItem, content = js ''Built system X'', priority = High,
                    category = Some General\<rparr>]),
        (Leadership, [\<lparr>itemType = ListItem, content = js ''Led team Y'', priority = High,
                       category = Some Leadership\<rparr>])] \<and>
   parseStructuredContent (Some longHeaderExample) =
     Sections
       [\<lparr>title = js ''EXPERIENCE & SKILLS'',
         items = [\<lparr>itemType = Bullet, content = js ''Built system X'', priority = High,
                    category = None\<rparr>,
                  \<lparr>itemType = Bullet, content = js ''Led team Y'', priority = High,
                    category = None\<rparr>]\<rparr>]"
  using headerExample_result headerExample_cleaned longHeaderExample_result by simp

text \<open>The result for the short header is not of type \<open>sections\<close>.\<close>

theorem header_example_not_sectioned_counterexample:
  "resultType (parseStructuredContent (Some headerExample)) \<noteq> ''sections''"
  by (simp add: headerExample_result resultType_def)

subsection \<open>Grouping by category\<close>

lemma groupingExample_kind: "classifyLines (linesOf groupingExample) = EnhancedListKind"
  by code_simp

lemma groupingExample_result:
  "parseStructuredContent (Some groupingExample) =
     EnhancedList
       [(Experience, [\<lparr>itemType = ListItem, content = js ''5 years experience'', priority = Medium,
                       category = Some Experience\<rparr>]),
        (Technical, [\<lparr>itemType = ListItem, content = js ''Python and SQL skills'', priority = Medium,
                      category = Some Technical\<rparr>]),
        (Education, [\<lparr>itemType = ListItem, content = js ''Bachelor'' @ [39] @ js ''s degree'',
                      priority = Low, category = Some Education\<rparr>])]"
  by code_simp

lemma numberedGroupingExample_kind:
  "classifyLines (linesOf numberedGroupingExample) = EnhancedListKind"
  by code_simp

lemma numberedGroupingExample_result:
  "parseStructuredContent (Some numberedGroupingExample) =
     EnhancedList
       [(Experience, [\<lparr>itemType = ListItem, content = js ''5 years experience'', priority = Medium,
                       category = Some Experience\<rparr>]),
        (Technical, [\<lparr>itemType = ListItem, content = js ''Python and SQL skills'', priority = Medium,
                      category = Some Technical\<rparr>]),
        (Education, [\<lparr>itemType = ListItem, content = js ''Bachelor'' @ [39] @ js ''s degree'',
                      priority = Low, category = Some Education\<rparr>])]"
  by code_simp

text \<open>
  Written with dashes or with numbers, the flat list of the three items
  \<open>5 years experience\<close>, \<open>Python and SQL skills\<close> and \<open>Bachelor's degree\<close> is an Enhanced
  list, and its groups are experience, technical and education, in this order, with one
  item each.
\<close>

theorem grouping_three_categories:
  "classifyLines (linesOf groupingExample) = EnhancedListKind \<and>
   map fst (case parseStructuredContent (Some groupingExample) of EnhancedList groups \<Rightarrow> groups | _ \<Rightarrow> []) =
     [Experience, Technical, Education] \<and>
   parseStructuredContent (Some groupingExample) =
     EnhancedList
       [(Experience, [\<lparr>itemType = ListItem, content = js ''5 years experience'', priority = Medium,
                       category = Some Experience\<rparr>]),
        (Technical, [\<lparr>itemType = ListItem, content = js ''Python and SQL skills'', priority = Medium,
                      category = Some Technical\<rparr>]),
        (Education, [\<lparr>itemType = ListItem, content = js ''Bachelor'' @ [39] @ js ''s degree'',
                      priority = Low, category = Some Education\<rparr>])] \<and>
   classifyLines (linesOf numberedGroupingExample) = EnhancedListKind \<and>
   parseStructuredContent (Some numberedGroupingExample) = parseStructuredContent (Some groupingExample)"
  using groupingExample_kind groupingExample_result numberedGroupingExample_kind
    numberedGroupingExample_result by simp

subsection \<open>Bounding the matches of a pattern\<close>

text \<open>
  A pattern built from parts that do not leave a list of states does not leave it either;
  if its last part has no match from these states, or only matches that end in a given
  list, so has the whole pattern.
\<close>

lemma closedOn_iff: "closedOn fl r T \<longleftrightarrow> (\<forall>t \<in> set T. set (rmatch fl r t) \<subseteq> set T)"
  by (auto simp: closedOn_def list_all_iff)

lemma emptyOn_iff: "emptyOn fl r T \<longleftrightarrow> (\<forall>t \<in> set T. rmatch fl r t = [])"
  by (auto simp: emptyOn_def list_all_iff)

lemma endsOn_iff: "endsOn fl r T E \<longleftrightarrow> (\<forall>t \<in> set T. set (rmatch fl r t) \<subseteq> set E)"
  by (auto simp: endsOn_def list_all_iff)

lemma set_rmatch_Cat:
  "set (rmatch fl (Cat a b) s) = (\<Union>s' \<in> set (rmatch fl a s). set (rmatch fl b s'))"
  by simp

lemma rep_closed:
  assumes "\<And>t. t \<in> T \<Longrightarrow> set (f t) \<subseteq> T"
  shows "s \<in> T \<Longrightarrow> set (rep f lo n s) \<subseteq> T"
proof (induction n arbitrary: lo s)
  case 0
  then show ?case by auto
next
  case (Suc n)
  show ?case
  proof
    fix u assume "u \<in> set (rep f lo (Suc n) s)"
    then consider (it) s' where "s' \<in> set (f s)" "u \<in> set (rep f (lo - 1) n s')" | (stop) "u = s"
      by (auto split: if_splits)
    then show "u \<in> T"
    proof cases
      case it
      from assms [OF Suc.prems] it(1) have "s' \<in> T" by blast
      from Suc.IH [OF this] it(2) show ?thesis by blast
    next
      case stop
      with Suc.prems show ?thesis by simp
    qed
  qed
qed

lemma closedOn_Cat: "closedOn fl a T \<Longrightarrow> closedOn fl b T \<Longrightarrow> closedOn fl (Cat a b) T"
  unfolding closedOn_iff set_rmatch_Cat by blast

lemma closedOn_Rep:
  assumes "closedOn fl r T"
  shows "closedOn fl (Rep lo hi r) T"
proof -
  have c: "\<And>t. t \<in> set T \<Longrightarrow> set (rmatch fl r t) \<subseteq> set T"
    using assms by (simp add: closedOn_iff)
  show ?thesis
    unfolding closedOn_iff
  proof
    fix t assume "t \<in> set T"
    from rep_closed [of "set T" "rmatch fl r", OF c this]
    show "set (rmatch fl (Rep lo hi r) t) \<subseteq> set T" by simp
  qed
qed

lemma emptyOn_Cat:
  assumes "closedOn fl a T" "emptyOn fl b T"
  shows "emptyOn fl (Cat a b) T"
  unfolding emptyOn_iff
proof
  fix t assume t: "t \<in> set T"
  have "set (rmatch fl (Cat a b) t) = (\<Union>s' \<in> set (rmatch fl a t). set (rmatch fl b s'))"
    by (rule set_rmatch_Cat)
  also have "\<dots> = {}"
    using assms t unfolding closedOn_iff emptyOn_iff by fastforce
  finally show "rmatch fl (Cat a b) t = []" by simp
qed

lemma endsOn_Cat: "closedOn fl a T \<Longrightarrow> endsOn fl b T E \<Longrightarrow> endsOn fl (Cat a b) T E"
  unfolding closedOn_iff endsOn_iff set_rmatch_Cat by blast

lemma mem_Cat:
  "s' \<in> set (rmatch fl a s) \<Longrightarrow> u \<in> set (rmatch fl b s') \<Longrightarrow> u \<in> set (rmatch fl (Cat a b) s)"
  by auto

lemma rep_zero_mem: "s \<in> set (rep f 0 n s)"
  by (cases n) simp_all

lemma mem_Rep2:
  assumes "s1 \<in> set (rmatch fl r s)" "s2 \<in> set (rmatch fl r s1)"
  shows "s2 \<in> set (rmatch fl (Rep 2 None r) s)"
proof -
  let ?f = "rmatch fl r" and ?k = "length (snd s)"
  have 0: "s2 \<in> set (rep ?f 0 ?k s2)" by (rule rep_zero_mem)
  have 1: "s2 \<in> set (rep ?f 1 (Suc ?k) s1)"
    unfolding rep.simps using assms(2) 0 by auto
  have 2: "s2 \<in> set (rep ?f 2 (Suc (Suc ?k)) s)"
    unfolding rep.simps(2) [of ?f 2 "Suc ?k" s] using assms(1) 1 by auto
  have "2 + length (snd s) = Suc (Suc ?k)" by simp
  with 2 show ?thesis by (simp del: rep.simps)
qed

lemma matchAt_NoneI: "rmatch fl r s = [] \<Longrightarrow> matchAt fl r s = None"
  by (simp add: matchAt_def)

lemma matchAt_SomeI:
  assumes "a \<in> set (rmatch fl r s)" "set (rmatch fl r s) \<subseteq> {a}"
  shows "matchAt fl r s = Some a"
proof (cases "rmatch fl r s")
  case Nil
  with assms(1) show ?thesis by simp
next
  case (Cons x xs)
  with assms(2) have "x = a" by auto
  with Cons show ?thesis by (simp add: matchAt_def)
qed

lemma replaceAll_known:
  assumes "matchAt fl r s0 = v"
  shows "replaceAll fl r repl str = replaceAllKnown s0 v fl r repl str"
proof -
  have "(\<lambda>s. case matchAt fl r s of None \<Rightarrow> None | Some s' \<Rightarrow> Some (s', repl)) =
        (\<lambda>s. case matchAtKnown s0 v fl r s of None \<Rightarrow> None | Some s' \<Rightarrow> Some (s', repl))"
    using assms by (auto simp: fun_eq_iff matchAtKnown_def)
  then show ?thesis by (simp only: replaceAll_def replaceAllKnown_def)
qed

text \<open>
  \<open>filterUnwantedContent\<close> and \<open>parseStructuredContent\<close> are the composition of their stages, and
  the second and the last pattern of \<open>dynamicPatterns\<close> have the shape that the lemmas
  above take apart.
\<close>

lemma seqs_Cons: "seqs (r # rs) = Cat r (seqs rs)"
  by (simp add: seqs_def)

lemma filterUnwantedContent_stages:
  "filterUnwantedContent text =
     (if text = [] then []
      else afterPatterns (applyPattern 9 (applyPattern 8 (applyPattern 7 (applyPattern 6
             (applyPattern 5 (applyPattern 4 (applyPattern 3 (applyPattern 2 (applyPattern 1
             (applyPattern 0 text)))))))))))"
  by (simp add: filterUnwantedContent_def afterPatterns_def applyPattern_def dynamicPatterns_def
      Let_def)

lemma parseStructuredContent_cleaned:
  "t \<noteq> [] \<Longrightarrow>
   parseStructuredContent (Some t) = parseCleaned (filterUnwantedContent (formatAnalysisText t))"
  by (simp add: parseStructuredContent_def parseCleaned_def Let_def)

lemma pattern2_shape:
  "fst (dynamicPatterns ! 1) = flagMI"
  "snd (dynamicPatterns ! 1) =
     Cat Bol (Cat quoteOpt (Cat (Rep 2 None (Cat (rplus capsLetter) (rstar ws)))
       (seqs [verbs, rplus ws, Rep 5 (Some 50) lowerOrSpace, rstar ws, quoteOpt, rstar ws, Eol])))"
  by (simp_all add: dynamicPatterns_def seqs_Cons capsLetter_def)

lemma pattern10_shape:
  "fst (dynamicPatterns ! 9) = flagMI"
  "snd (dynamicPatterns ! 9) =
     Cat Bol (Cat (rstar ws) (Cat (Rep 2 None (Cat (Rep 2 None capsLetter) (rstar ws)))
       (Cat (Rep 0 (Some 20) lowerOrSpace) (Cat (rstar ws) (seqs [Eol])))))"
  by (simp_all add: dynamicPatterns_def seqs_Cons capsLetter_def)

subsection \<open>The three items without list markers\<close>

text \<open>
  On the second line of \<open>plainExample\<close> the second pattern has no match: no part of it
  leaves \<open>plainRun\<close>, and no verb of its list starts anywhere in \<open>plainRun\<close>. The last
  pattern, \<open>/^\s*(?:[A-Z]{2,}\s*){2,}[a-z\s]{0,20}\s*$/gmi\<close>, matches the whole line: under
  the flag \<open>i\<close> the class \<open>[A-Z]\<close> accepts the lower-case letters too, so \<open>Python\<close> and
  \<open>and\<close> are two groups of \<open>[A-Z]{2,}\<close>, and \<open>SQL skills\<close> is taken by \<open>[a-z\s]{0,20}\<close>.
  Every match ends at the end of the line.
\<close>

lemma plainRun_closed:
  "closedOn flagMI Bol plainRun"
  "closedOn flagMI quoteOpt plainRun"
  "closedOn flagMI (rstar ws) plainRun"
  "closedOn flagMI (Cat (rplus capsLetter) (rstar ws)) plainRun"
  "closedOn flagMI (Cat (Rep 2 None capsLetter) (rstar ws)) plainRun"
  "closedOn flagMI lowerOrSpace plainRun"
  by code_simp+

lemma plainRun_start: "plainSkills \<in> set plainRun"
  by code_simp

lemma plainRun_no_verb:
  "emptyOn flagMI
     (seqs [verbs, rplus ws, Rep 5 (Some 50) lowerOrSpace, rstar ws, quoteOpt, rstar ws, Eol]) plainRun"
  by code_simp

lemma plainRun_line_end: "endsOn flagMI (seqs [Eol]) plainRun [plainSkillsEnd]"
  by code_simp
lemma plainSkills_pattern2: "matchAt flagMI (snd (dynamicPatterns ! 1)) plainSkills = None"
proof -
  have "emptyOn flagMI (snd (dynamicPatterns ! 1)) plainRun"
    unfolding pattern2_shape
    by (intro emptyOn_Cat closedOn_Rep plainRun_closed plainRun_no_verb)
  then have "rmatch flagMI (snd (dynamicPatterns ! 1)) plainSkills = []"
    using plainRun_start by (simp add: emptyOn_iff)
  then show ?thesis by (rule matchAt_NoneI)
qed

lemma plainSkills_pattern10:
  "matchAt flagMI (snd (dynamicPatterns ! 9)) plainSkills = Some plainSkillsEnd"
proof (rule matchAt_SomeI)
  let ?word = "Cat (Rep 2 None capsLetter) (rstar ws)"
  let ?rest = "Cat (Rep 0 (Some 20) lowerOrSpace) (Cat (rstar ws) (seqs [Eol]))"
  let ?s1 = "(Some 32, js ''and SQL skills\<newline>Bachelor'' @ [39] @ js ''s degree'') :: mstate"
  let ?s2 = "(Some 32, js ''SQL skills\<newline>Bachelor'' @ [39] @ js ''s degree'') :: mstate"
  have a: "plainSkills \<in> set (rmatch flagMI Bol plainSkills)" by code_simp
  have b: "plainSkills \<in> set (rmatch flagMI (rstar ws) plainSkills)" by code_simp
  have c: "?s1 \<in> set (rmatch flagMI ?word plainSkills)" by code_simp
  have d: "?s2 \<in> set (rmatch flagMI ?word ?s1)" by code_simp
  have e: "plainSkillsEnd \<in> set (rmatch flagMI ?rest ?s2)" by code_simp
  show "plainSkillsEnd \<in> set (rmatch flagMI (snd (dynamicPatterns ! 9)) plainSkills)"
    unfolding pattern10_shape
    by (intro mem_Cat [OF a] mem_Cat [OF b] mem_Cat [OF mem_Rep2 [OF c d]] e)
  have "endsOn flagMI (snd (dynamicPatterns ! 9)) plainRun [plainSkillsEnd]"
    unfolding pattern10_shape
    by (intro endsOn_Cat closedOn_Rep plainRun_closed plainRun_line_end)
  then show "set (rmatch flagMI (snd (dynamicPatterns ! 9)) plainSkills) \<subseteq> {plainSkillsEnd}"
    using plainRun_start by (simp add: endsOn_iff)
qed

text \<open>
  The stages of \<open>filterUnwantedContent\<close> on \<open>plainExample\<close>: \<open>formatAnalysisText\<close> and the first
  nine patterns leave the text as it is, the last pattern deletes the second line, and the
  rest of the filter removes the empty line.
\<close>

lemma plain_format: "formatAnalysisText plainExample = plainExample"
  by code_simp

lemma plain_stage0: "applyPattern 0 plainExample = plainExample"
  by code_simp

lemma plain_stage1: "applyPattern 1 plainExample = plainExample"
  unfolding applyPattern_def pattern2_shape(1)
  unfolding replaceAll_known [OF plainSkills_pattern2]
  by code_simp

lemma plain_stage2: "applyPattern 2 plainExample = plainExample"
  by code_simp

lemma plain_stage3: "applyPattern 3 plainExample = plainExample"
  by code_simp

lemma plain_stage4: "applyPattern 4 plainExample = plainExample"
  by code_simp

lemma plain_stage5: "applyPattern 5 plainExample = plainExample"
  by code_simp

lemma plain_stage6: "applyPattern 6 plainExample = plainExample"
  by code_simp

lemma plain_stage7: "applyPattern 7 plainExample = plainExample"
  by code_simp

lemma plain_stage8: "applyPattern 8 plainExample = plainExample"
  by code_simp

lemma plain_stage9: "applyPattern 9 plainExample = plainDeleted"
  unfolding applyPattern_def pattern10_shape(1)
  unfolding replaceAll_known [OF plainSkills_pattern10]
  by code_simp

lemma plain_after: "afterPatterns plainDeleted = plainCleaned"
  by code_simp

lemma plain_parse:
  "parseCleaned plainCleaned =
     EnhancedList
       [(Experience, [\<lparr>itemType = ListItem, content = js ''5 years experience'',
                       priority = Medium, category = Some Experience\<rparr>]),
        (Education, [\<lparr>itemType = ListItem, content = js ''Bachelor'' @ [39] @ js ''s degree'',
                      priority = Low, category = Some Education\<rparr>])]"
  by code_simp

lemma plainExample_cleaned: "filterUnwantedContent (formatAnalysisText plainExample) = plainCleaned"
proof -
  have "plainExample \<noteq> []" by code_simp
  then have "filterUnwantedContent plainExample =
      afterPatterns (applyPattern 9 (applyPattern 8 (applyPattern 7 (applyPattern 6
        (applyPattern 5 (applyPattern 4 (applyPattern 3 (applyPattern 2 (applyPattern 1
        (applyPattern 0 plainExample))))))))))"
    by (simp add: filterUnwantedContent_stages)
  then show ?thesis
    by (simp only: plain_format plain_stage0 plain_stage1
        plain_stage2 plain_stage3 plain_stage4 plain_stage5 plain_stage6 plain_stage7
        plain_stage8 plain_stage9 plain_after)
qed

lemma plainExample_kind: "classifyLines (linesOf plainExample) = EnhancedListKind"
proof -
  have "classifyLines (structuredLines plainCleaned) = EnhancedListKind" by code_simp
  then show ?thesis by (simp only: linesOf_def plainExample_cleaned)
qed

lemma plainExample_result:
  "parseStructuredContent (Some plainExample) =
     EnhancedList
       [(Experience, [\<lparr>itemType = ListItem, content = js ''5 years experience'',
                       priority = Medium, category = Some Experience\<rparr>]),
        (Education, [\<lparr>itemType = ListItem, content = js ''Bachelor'' @ [39] @ js ''s degree'',
                      priority = Low, category = Some Education\<rparr>])]"
proof -
  have "plainExample \<noteq> []" by code_simp
  then have "parseStructuredContent (Some plainExample) =
      parseCleaned (filterUnwantedContent (formatAnalysisText plainExample))"
    by (rule parseStructuredContent_cleaned)
  then show ?thesis
    by (simp only: plainExample_cleaned plain_parse)
qed

text \<open>
  The line is deleted because of the flag \<open>i\<close> alone: matched with the flags \<open>gm\<close>, where
  \<open>[A-Z]{2,}\<close> needs two capital letters, the last pattern leaves \<open>plainExample\<close> as it is.
\<close>

lemma pattern10_case_sensitive:
  "replaceAll flagM (snd (dynamicPatterns ! 9)) [] plainExample = plainExample"
  by code_simp

subsection \<open>The three items as a list with asterisks\<close>

text \<open>
  \<open>formatAnalysisText\<close> removes the first two asterisks of \<open>starExample\<close> as a pair of
  emphasis markers before it normalises the bullets, so the second line reaches the filter
  without a marker and is deleted as in \<open>plainExample\<close>.
\<close>

lemma starRun_closed:
  "closedOn flagMI Bol starRun"
  "closedOn flagMI quoteOpt starRun"
  "closedOn flagMI (rstar ws) starRun"
  "closedOn flagMI (Cat (rplus capsLetter) (rstar ws)) starRun"
  "closedOn flagMI (Cat (Rep 2 None capsLetter) (rstar ws)) starRun"
  "closedOn flagMI lowerOrSpace starRun"
  by code_simp+

lemma starRun_start: "starSkills \<in> set starRun"
  by code_simp

lemma starRun_no_verb:
  "emptyOn flagMI
     (seqs [verbs, rplus ws, Rep 5 (Some 50) lowerOrSpace, rstar ws, quoteOpt, rstar ws, Eol]) starRun"
  by code_simp

lemma starRun_line_end: "endsOn flagMI (seqs [Eol]) starRun [starSkillsEnd]"
  by code_simp

lemma starSkills_pattern2: "matchAt flagMI (snd (dynamicPatterns ! 1)) starSkills = None"
proof -
  have "emptyOn flagMI (snd (dynamicPatterns ! 1)) starRun"
    unfolding pattern2_shape
    by (intro emptyOn_Cat closedOn_Rep starRun_closed starRun_no_verb)
  then have "rmatch flagMI (snd (dynamicPatterns ! 1)) starSkills = []"
    using starRun_start by (simp add: emptyOn_iff)
  then show ?thesis by (rule matchAt_NoneI)
qed

lemma starSkills_pattern10:
  "matchAt flagMI (snd (dynamicPatterns ! 9)) starSkills = Some starSkillsEnd"
proof (rule matchAt_SomeI)
  let ?word = "Cat (Rep 2 None capsLetter) (rstar ws)"
  let ?rest = "Cat (Rep 0 (Some 20) lowerOrSpace) (Cat (rstar ws) (seqs [Eol]))"
  let ?s1 = "(Some 32, js ''and SQL skills\<newline>'' @ bullet @ js ''Bachelor'' @ [39] @ js ''s degree'') :: mstate"
  let ?s2 = "(Some 32, js ''SQL skills\<newline>'' @ bullet @ js ''Bachelor'' @ [39] @ js ''s degree'') :: mstate"
  have a: "starSkills \<in> set (rmatch flagMI Bol starSkills)" by code_simp
  have b: "starSkills \<in> set (rmatch flagMI (rstar ws) starSkills)" by code_simp
  have c: "?s1 \<in> set (rmatch flagMI ?word starSkills)" by code_simp
  have d: "?s2 \<in> set (rmatch flagMI ?word ?s1)" by code_simp
  have e: "starSkillsEnd \<in> set (rmatch flagMI ?rest ?s2)" by code_simp
  show "starSkillsEnd \<in> set (rmatch flagMI (snd (dynamicPatterns ! 9)) starSkills)"
    unfolding pattern10_shape
    by (intro mem_Cat [OF a] mem_Cat [OF b] mem_Cat [OF mem_Rep2 [OF c d]] e)
  have "endsOn flagMI (snd (dynamicPatterns ! 9)) starRun [starSkillsEnd]"
    unfolding pattern10_shape
    by (intro endsOn_Cat closedOn_Rep starRun_closed starRun_line_end)
  then show "set (rmatch flagMI (snd (dynamicPatterns ! 9)) starSkills) \<subseteq> {starSkillsEnd}"
    using starRun_start by (simp add: endsOn_iff)
qed

lemma star_format: "formatAnalysisText starExample = starFormatted"
  by code_simp

lemma star_stage0: "applyPattern 0 starFormatted = starFormatted"
  by code_simp

lemma star_stage1: "applyPattern 1 starFormatted = starFormatted"
  unfolding applyPattern_def pattern2_shape(1)
  unfolding replaceAll_known [OF starSkills_pattern2]
  by code_simp

lemma star_stage2: "applyPattern 2 starFormatted = starFormatted"
  by code_simp

lemma star_stage3: "applyPattern 3 starFormatted = starFormatted"
  by code_simp

lemma star_stage4: "applyPattern 4 starFormatted = starFormatted"
  by code_simp

lemma star_stage5: "applyPattern 5 starFormatted = starFormatted"
  by code_simp

lemma star_stage6: "applyPattern 6 starFormatted = starFormatted"
  by code_simp

lemma star_stage7: "applyPattern 7 starFormatted = starFormatted"
  by code_simp

lemma star_stage8: "applyPattern 8 starFormatted = starFormatted"
  by code_simp

lemma star_stage9: "applyPattern 9 starFormatted = starDeleted"
  unfolding applyPattern_def pattern10_shape(1)
  unfolding replaceAll_known [OF starSkills_pattern10]
  by code_simp

lemma star_after: "afterPatterns starDeleted = starCleaned"
  by code_simp

lemma star_parse:
  "parseCleaned starCleaned =
     EnhancedList
       [(Experience, [\<lparr>itemType = ListItem, content = js ''5 years experience'',
                       priority = Medium, category = Some Experience\<rparr>]),
        (Education, [\<lparr>itemType = ListItem, content = js ''Bachelor'' @ [39] @ js ''s degree'',
                      priority = Low, category = Some Education\<rparr>])]"
  by code_simp

lemma starExample_cleaned: "filterUnwantedContent (formatAnalysisText starExample) = starCleaned"
proof -
  have "starFormatted \<noteq> []" by code_simp
  then have "filterUnwantedContent starFormatted =
      afterPatterns (applyPattern 9 (applyPattern 8 (applyPattern 7 (applyPattern 6
        (applyPattern 5 (applyPattern 4 (applyPattern 3 (applyPattern 2 (applyPattern 1
        (applyPattern 0 starFormatted))))))))))"
    by (simp add: filterUnwantedContent_stages)
  then show ?thesis
    by (simp only: star_format star_stage0 star_stage1
        star_stage2 star_stage3 star_stage4 star_stage5 star_stage6 star_stage7
        star_stage8 star_stage9 star_after)
qed

lemma starExample_result:
  "parseStructuredContent (Some starExample) =
     EnhancedList
       [(Experience, [\<lparr>itemType = ListItem, content = js ''5 years experience'',
                       priority = Medium, category = Some Experience\<rparr>]),
        (Education, [\<lparr>itemType = ListItem, content = js ''Bachelor'' @ [39] @ js ''s degree'',
                      priority = Low, category = Some Education\<rparr>])]"
proof -
  have "starExample \<noteq> []" by code_simp
  then have "parseStructuredContent (Some starExample) =
      parseCleaned (filterUnwantedContent (formatAnalysisText starExample))"
    by (rule parseStructuredContent_cleaned)
  then show ?thesis
    by (simp only: starExample_cleaned star_parse)
qed

subsection \<open>The groups of the three items\<close>

text \<open>
  C5. A flat list whose lines are \<open>5 years experience\<close>, \<open>Python and SQL skills\<close> and
  \<open>Bachelor's degree\<close> is to be an Enhanced list with exactly the three groups experience,
  technical and education. The code does not do this for the three lines as they stand:
  the result is an Enhanced list, but the filter for lines of acronyms deletes
  \<open>Python and SQL skills\<close> before the lines are classified, and the groups are experience
  and education only, with one item each and no group technical.
\<close>

theorem grouping_unmarked_lines_two_groups:
  "classifyLines (linesOf plainExample) = EnhancedListKind \<and>
   filterUnwantedContent (formatAnalysisText plainExample) =
     js ''5 years experience\<newline>Bachelor'' @ [39] @ js ''s degree'' \<and>
   map fst (case parseStructuredContent (Some plainExample) of EnhancedList groups \<Rightarrow> groups | _ \<Rightarrow> []) =
     [Experience, Education] \<and>
   parseStructuredContent (Some plainExample) =
     EnhancedList
       [(Experience, [\<lparr>itemType = ListItem, content = js ''5 years experience'',
                       priority = Medium, category = Some Experience\<rparr>]),
        (Education, [\<lparr>itemType = ListItem, content = js ''Bachelor'' @ [39] @ js ''s degree'',
                      priority = Low, category = Some Education\<rparr>])]"
  using plainExample_kind plainExample_cleaned plainExample_result
  by (simp add: plainCleaned_def)

end
